theory Spec2Isabelle
  imports Main "HOL-Library.Word"
begin

unbundle bit_operations_syntax

section \<open>The cursor buffer (package dns, BytePacketBuffer)\<close>

text \<open>
  Go's \<^verbatim>\<open>byte\<close>/\<^verbatim>\<open>uint8\<close>, \<^verbatim>\<open>uint16\<close> and \<^verbatim>\<open>uint32\<close> are words:
  addition wraps around. A Go string is a sequence of bytes, modelled as a
  \<^typ>\<open>string\<close>; \<^verbatim>\<open>[]byte(s)\<close> and \<^verbatim>\<open>string(bs)\<close> convert byte by byte.
\<close>

type_synonym byte = "8 word"
type_synonym uint16 = "16 word"
type_synonym uint32 = "32 word"

definition bytes_of_string :: "string \<Rightarrow> byte list" where
  "bytes_of_string s = map of_char s"

definition string_of_bytes :: "byte list \<Rightarrow> string" where
  "string_of_bytes bs = map (\<lambda>x. char_of (unat x)) bs"

text \<open>
  The errors the package returns (\<^verbatim>\<open>errors.New\<close>, \<^verbatim>\<open>fmt.Errorf\<close>), and
  \<open>Panic\<close> for a Go run-time panic (an index or a slice bound out of range).
\<close>

datatype error =
    EndOfBuffer
  | JumpLimitExceeded
  | LabelTooLong
  | InvalidIPv4
  | InvalidIPv6
  | Panic

text \<open>
  \<^verbatim>\<open>x, err := f(); if err != nil { return ..., err }\<close>: the first error
  ends the function, otherwise the rest runs on the value returned.
\<close>

definition bindE :: "error + 'a \<Rightarrow> ('a \<Rightarrow> error + 'b) \<Rightarrow> error + 'b" where
  "bindE m f = (case m of Inl e \<Rightarrow> Inl e | Inr x \<Rightarrow> f x)"

lemma bindE_Inl [simp, code]: "bindE (Inl e) f = Inl e"
  by (simp add: bindE_def)

lemma bindE_Inr [simp, code]: "bindE (Inr x) f = f x"
  by (simp add: bindE_def)

lemma bindE_cong [fundef_cong]:
  "m = m' \<Longrightarrow> (\<And>x. m' = Inr x \<Longrightarrow> f x = f' x) \<Longrightarrow> bindE m f = bindE m' f'"
  by (cases m') (simp_all add: bindE_def)

lemma bindE_eq_Inr: "bindE m f = Inr y \<longleftrightarrow> (\<exists>x. m = Inr x \<and> f x = Inr y)"
  by (cases m) simp_all

lemma bindE_eq_Inl: "bindE m f = Inl e \<longleftrightarrow> m = Inl e \<or> (\<exists>x. m = Inr x \<and> f x = Inl e)"
  by (cases m) simp_all

text \<open>
  \<^verbatim>\<open>type BytePacketBuffer struct { Buf [512]byte; Pos uint16 }\<close>.
  The array is a list; \<open>wf_buffer\<close> says that it has the array's length.
  Every method that mutates its receiver returns the new buffer; a method that
  returns a non-nil error returns \<open>Inl\<close> of it (its callers give the buffer up).
\<close>

record BytePacketBuffer =
  Buf :: "byte list"
  Pos :: uint16

definition wf_buffer :: "BytePacketBuffer \<Rightarrow> bool" where
  "wf_buffer b \<longleftrightarrow> length (Buf b) = 512"

definition NewBytePacketBuffer :: BytePacketBuffer where
  "NewBytePacketBuffer = \<lparr>Buf = replicate 512 0, Pos = 0\<rparr>"

text \<open>\<^verbatim>\<open>copy(b.Buf[:], buf)\<close> copies \<open>min 512 (len buf)\<close> bytes.\<close>

definition SetBuffer :: "BytePacketBuffer \<Rightarrow> byte list \<Rightarrow> BytePacketBuffer" where
  "SetBuffer b buf = b\<lparr>Buf := take 512 buf @ drop (length buf) (Buf b)\<rparr>"

text \<open>\<^verbatim>\<open>b.Buf[pos] = val\<close> panics when \<open>pos\<close> is not an index of the array.\<close>

definition Set :: "BytePacketBuffer \<Rightarrow> uint16 \<Rightarrow> byte \<Rightarrow> error + BytePacketBuffer" where
  "Set b pos val =
     (if unat pos < 512 then Inr (b\<lparr>Buf := (Buf b)[unat pos := val]\<rparr>) else Inl Panic)"

definition Set2Bytes :: "BytePacketBuffer \<Rightarrow> uint16 \<Rightarrow> uint16 \<Rightarrow> error + BytePacketBuffer" where
  "Set2Bytes b pos val =
     bindE (Set b pos (ucast (drop_bit 8 val))) (\<lambda>b1.
       Set b1 (pos + 1) (ucast (val AND 0xFF)))"

definition Step :: "BytePacketBuffer \<Rightarrow> uint16 \<Rightarrow> error + BytePacketBuffer" where
  "Step b steps = Inr (b\<lparr>Pos := Pos b + steps\<rparr>)"

definition Seek :: "BytePacketBuffer \<Rightarrow> uint16 \<Rightarrow> error + BytePacketBuffer" where
  "Seek b pos = Inr (b\<lparr>Pos := pos\<rparr>)"

definition Read :: "BytePacketBuffer \<Rightarrow> error + (byte \<times> BytePacketBuffer)" where
  "Read b =
     (if Pos b \<ge> 512 then Inl EndOfBuffer
      else Inr (Buf b ! unat (Pos b), b\<lparr>Pos := Pos b + 1\<rparr>))"

definition Get :: "BytePacketBuffer \<Rightarrow> uint16 \<Rightarrow> error + byte" where
  "Get b pos = (if pos \<ge> 512 then Inl EndOfBuffer else Inr (Buf b ! unat pos))"

text \<open>
  \<^verbatim>\<open>start+len\<close> is a \<^verbatim>\<open>uint16\<close> sum and wraps. The slice expression
  \<^verbatim>\<open>b.Buf[start : start+len]\<close> panics unless \<open>start \<le> start+len \<le> 512\<close>.
\<close>

definition GetRange :: "BytePacketBuffer \<Rightarrow> uint16 \<Rightarrow> uint16 \<Rightarrow> error + byte list" where
  "GetRange b start len =
     (if start + len \<ge> 512 then Inl EndOfBuffer
      else if start \<le> start + len
        then Inr (take (unat (start + len) - unat start) (drop (unat start) (Buf b)))
        else Inl Panic)"

definition Read2Bytes :: "BytePacketBuffer \<Rightarrow> error + (uint16 \<times> BytePacketBuffer)" where
  "Read2Bytes b =
     bindE (Read b) (\<lambda>(byte1, b1).
     bindE (Read b1) (\<lambda>(byte2, b2).
       Inr (push_bit 8 (ucast byte1) OR ucast byte2, b2)))"

definition Read4Bytes :: "BytePacketBuffer \<Rightarrow> error + (uint32 \<times> BytePacketBuffer)" where
  "Read4Bytes b =
     bindE (Read b) (\<lambda>(byte1, b1).
     bindE (Read b1) (\<lambda>(byte2, b2).
     bindE (Read b2) (\<lambda>(byte3, b3).
     bindE (Read b3) (\<lambda>(byte4, b4).
       Inr (push_bit 24 (ucast byte1) OR push_bit 16 (ucast byte2)
              OR push_bit 8 (ucast byte3) OR ucast byte4, b4)))))"


subsection \<open>Reading a name\<close>

text \<open>
  \<^verbatim>\<open>strings.ToLower\<close> of the Go library: a string of ASCII bytes has its
  letters \<open>A\<close> to \<open>Z\<close> shifted to lower case; any other string goes through the
  Unicode mapping, which is not part of this repository and is the parameter
  \<open>uni\<close> of everything that reads a name.
\<close>

definition ascii_lower :: "char \<Rightarrow> char" where
  "ascii_lower c =
     (if (65::nat) \<le> of_char c \<and> of_char c \<le> (90::nat)
      then char_of (of_char c + (32::nat)) else c)"

definition ToLower :: "(string \<Rightarrow> string) \<Rightarrow> string \<Rightarrow> string" where
  "ToLower uni s =
     (if list_all (\<lambda>c. of_char c < (128::nat)) s then map ascii_lower s else uni s)"

definition maxJums :: nat where
  "maxJums = 5"

lemma unat_byte_less: "unat (x :: byte) < 256"
  using unsigned_less [of x, where ?'a = nat] by simp

lemma unat_uint16_less: "unat (x :: uint16) < 65536"
  using unsigned_less [of x, where ?'a = nat] by simp

lemma unat_ucast_byte: "unat (ucast (x :: byte) :: uint16) = unat x"
  by (simp add: unsigned_ucast_eq take_bit_nat_eq_self unat_byte_less [THEN less_trans])

lemma label_step_unat:
  fixes pos :: uint16 and lenByte :: byte
  assumes "\<not> 512 \<le> pos"
  shows "unat (pos + 1 + ucast lenByte) = unat pos + 1 + unat lenByte"
proof -
  have p: "unat pos < 512"
    using assms by (simp add: word_le_nat_alt)
  have l: "unat lenByte < 256"
    by (rule unat_byte_less)
  have "unat (pos + 1 + ucast lenByte) = (unat pos + 1 + unat lenByte) mod 2 ^ 16"
    by (simp add: unat_word_ariths unat_ucast_byte mod_simps)
  with p l show ?thesis by simp
qed

text \<open>
  The \<^verbatim>\<open>for\<close> loop of \<^verbatim>\<open>ReadQName\<close>, with its local variables as
  arguments; the \<^verbatim>\<open>break\<close> branch carries the code after the loop.
\<close>

function ReadQName_loop ::
  "(string \<Rightarrow> string) \<Rightarrow> BytePacketBuffer \<Rightarrow> uint16 \<Rightarrow> bool \<Rightarrow> nat \<Rightarrow> string \<Rightarrow> string
     \<Rightarrow> error + (string \<times> BytePacketBuffer)" where
  "ReadQName_loop uni b pos jumped jumpsPerformed delim sb =
     (if jumpsPerformed > maxJums then Inl JumpLimitExceeded
      else case Get b pos of
        Inl e \<Rightarrow> Inl e
      | Inr lenByte \<Rightarrow>
          if lenByte AND 0xC0 = 0xC0 then
            (case (if \<not> jumped then Seek b (pos + 2) else Inr b) of
               Inl e \<Rightarrow> Inl e
             | Inr b1 \<Rightarrow>
                (case Get b1 (pos + 1) of
                   Inl e \<Rightarrow> Inl e
                 | Inr b2 \<Rightarrow>
                     ReadQName_loop uni b1
                       (push_bit 8 (ucast lenByte XOR 0xC0) OR ucast b2)
                       True (jumpsPerformed + 1) delim sb))
          else if lenByte = 0 then
            (case (if \<not> jumped then Seek b (pos + 1) else Inr b) of
               Inl e \<Rightarrow> Inl e
             | Inr b1 \<Rightarrow> Inr (sb, b1))
          else
            (case GetRange b (pos + 1) (ucast lenByte) of
               Inl e \<Rightarrow> Inl e
             | Inr bs \<Rightarrow>
                 ReadQName_loop uni b (pos + 1 + ucast lenByte) jumped jumpsPerformed ''.''
                   (sb @ delim @ ToLower uni (string_of_bytes bs))))"
  by pat_completeness auto
termination
proof (relation "measure (\<lambda>(uni, b, pos, jumped, jumpsPerformed, delim, sb).
          (6 - jumpsPerformed) * 65536 + (65535 - unat pos))", goal_cases)
  case 1
  show ?case by simp
next
  case (2 uni b pos jumped jumpsPerformed delim sb lenByte b1 b2)
  have "unat (push_bit 8 (ucast lenByte XOR 0xC0) OR ucast b2 :: uint16) < 65536"
    by (rule unat_uint16_less)
  with 2 show ?case by (simp add: maxJums_def)
next
  case (3 uni b pos jumped jumpsPerformed delim sb lenByte bs)
  from 3(2) have np: "\<not> 512 \<le> pos"
    by (auto simp: Get_def split: if_splits)
  have "unat (pos + 1 + ucast lenByte) < 65536"
    by (rule unat_uint16_less)
  then show ?case
    using label_step_unat [OF np, of lenByte] by simp
qed

declare ReadQName_loop.simps [simp del]

definition ReadQName ::
  "(string \<Rightarrow> string) \<Rightarrow> BytePacketBuffer \<Rightarrow> error + (string \<times> BytePacketBuffer)" where
  "ReadQName uni b = ReadQName_loop uni b (Pos b) False 0 [] []"

subsection \<open>Writing\<close>

text \<open>The method \<^verbatim>\<open>write\<close> (\<open>write_val\<close> here).\<close>

definition write_val :: "BytePacketBuffer \<Rightarrow> byte \<Rightarrow> error + BytePacketBuffer" where
  "write_val b val =
     (if Pos b \<ge> 512 then Inl EndOfBuffer
      else Inr (b\<lparr>Buf := (Buf b)[unat (Pos b) := val], Pos := Pos b + 1\<rparr>))"

definition Write1Byte :: "BytePacketBuffer \<Rightarrow> byte \<Rightarrow> error + BytePacketBuffer" where
  "Write1Byte b val = write_val b val"

definition Write2Byte :: "BytePacketBuffer \<Rightarrow> uint16 \<Rightarrow> error + BytePacketBuffer" where
  "Write2Byte b val =
     bindE (write_val b (ucast (drop_bit 8 val))) (\<lambda>b1.
       write_val b1 (ucast (val AND 0xFF)))"

definition Write4Byte :: "BytePacketBuffer \<Rightarrow> uint32 \<Rightarrow> error + BytePacketBuffer" where
  "Write4Byte b val =
     bindE (write_val b (ucast (drop_bit 24 val AND 0xFF))) (\<lambda>b1.
     bindE (write_val b1 (ucast (drop_bit 16 val AND 0xFF))) (\<lambda>b2.
     bindE (write_val b2 (ucast (drop_bit 8 val AND 0xFF))) (\<lambda>b3.
       write_val b3 (ucast (val AND 0xFF)))))"

text \<open>
  \<^verbatim>\<open>strings.Split(qname, ".")\<close>: the pieces between the dots, empty pieces
  included; the empty string gives one empty piece.
\<close>

fun split_dot :: "string \<Rightarrow> string list" where
  "split_dot [] = [[]]"
| "split_dot (c # cs) =
     (if c = CHR ''.'' then [] # split_dot cs
      else (case split_dot cs of
              [] \<Rightarrow> [[c]]
            | l # ls \<Rightarrow> (c # l) # ls))"

text \<open>The inner loop \<^verbatim>\<open>for _, b1 := range []byte(label)\<close>.\<close>

fun write_label_bytes :: "BytePacketBuffer \<Rightarrow> byte list \<Rightarrow> error + BytePacketBuffer" where
  "write_label_bytes b [] = Inr b"
| "write_label_bytes b (b1 # rest) =
     bindE (Write1Byte b b1) (\<lambda>b'. write_label_bytes b' rest)"

text \<open>
  The outer loop \<^verbatim>\<open>for _, label := range strings.Split(qname, ".")\<close>. The
  zero byte is written inside the loop body, once for every label.
\<close>

fun WriteQName_labels :: "BytePacketBuffer \<Rightarrow> string list \<Rightarrow> error + BytePacketBuffer" where
  "WriteQName_labels b [] = Inr b"
| "WriteQName_labels b (label # rest) =
     (if length label > 0x3f then Inl LabelTooLong
      else
        bindE (Write1Byte b (of_nat (length label))) (\<lambda>b1.
        bindE (write_label_bytes b1 (bytes_of_string label)) (\<lambda>b2.
        bindE (Write1Byte b2 0) (\<lambda>b3.
          WriteQName_labels b3 rest))))"

definition WriteQName :: "BytePacketBuffer \<Rightarrow> string \<Rightarrow> error + BytePacketBuffer" where
  "WriteQName b qname = WriteQName_labels b (split_dot qname)"


section \<open>Header, questions and records (package dns)\<close>

text \<open>
  \<^verbatim>\<open>ResultCode\<close> and \<^verbatim>\<open>RecordType\<close> are Go integer types whose constants
  are numbered by \<^verbatim>\<open>iota\<close>; a conversion such as \<^verbatim>\<open>uint16(dq.Type)\<close> yields
  that number.
\<close>

datatype ResultCode = NOERROR | FORMERR | SERVFAIL | NXDOMAIN | NOTIMP | REFUSED

datatype RecordType = UNKNOWN | A | NS | CNAME | MX | AAAA

fun ResultCode_iota :: "ResultCode \<Rightarrow> nat" where
  "ResultCode_iota NOERROR = 0"
| "ResultCode_iota FORMERR = 1"
| "ResultCode_iota SERVFAIL = 2"
| "ResultCode_iota NXDOMAIN = 3"
| "ResultCode_iota NOTIMP = 4"
| "ResultCode_iota REFUSED = 5"

fun RecordType_iota :: "RecordType \<Rightarrow> nat" where
  "RecordType_iota UNKNOWN = 0"
| "RecordType_iota A = 1"
| "RecordType_iota NS = 2"
| "RecordType_iota CNAME = 3"
| "RecordType_iota MX = 4"
| "RecordType_iota AAAA = 5"

record DnsHeader =
  ID :: uint16
  RecursionDesired :: bool
  TruncatedMessage :: bool
  AuthoritativeAnswer :: bool
  Opcode :: byte
  Response :: bool
  Rescode :: ResultCode
  CheckingDisabled :: bool
  AuthedData :: bool
  Z :: bool
  RecursionAvailable :: bool
  Questions :: uint16
  Answers :: uint16
  AuthoritativeEntries :: uint16
  ResourceEntries :: uint16

text \<open>\<^verbatim>\<open>&DnsHeader{}\<close>: every field has Go's zero value.\<close>

definition NewDnsHeader :: DnsHeader where
  "NewDnsHeader =
     \<lparr>ID = 0, RecursionDesired = False, TruncatedMessage = False,
      AuthoritativeAnswer = False, Opcode = 0, Response = False, Rescode = NOERROR,
      CheckingDisabled = False, AuthedData = False, Z = False,
      RecursionAvailable = False, Questions = 0, Answers = 0,
      AuthoritativeEntries = 0, ResourceEntries = 0\<rparr>"

text \<open>The first flag byte, as \<^verbatim>\<open>DnsHeader.Write\<close> builds it.\<close>

definition flag_byte1 :: "DnsHeader \<Rightarrow> byte" where
  "flag_byte1 h =
     (let flag = 0;
          flag = (if RecursionDesired h then flag OR 1 else flag);
          flag = (if TruncatedMessage h then flag OR push_bit 1 1 else flag);
          flag = (if AuthoritativeAnswer h then flag OR push_bit 2 1 else flag);
          flag = flag OR push_bit 3 (Opcode h);
          flag = (if Response h then flag OR push_bit 7 1 else flag)
      in flag)"

text \<open>The second value of \<^verbatim>\<open>flag\<close>, which \<^verbatim>\<open>DnsHeader.Write\<close> builds.\<close>

definition flag_byte2 :: "DnsHeader \<Rightarrow> byte" where
  "flag_byte2 h =
     (let flag = 0;
          flag = flag OR of_nat (ResultCode_iota (Rescode h));
          flag = (if CheckingDisabled h then flag OR push_bit 4 1 else flag);
          flag = (if AuthedData h then flag OR push_bit 5 1 else flag);
          flag = (if Z h then flag OR push_bit 6 1 else flag);
          flag = (if RecursionAvailable h then flag OR push_bit 7 1 else flag)
      in flag)"

text \<open>
  \<^verbatim>\<open>DnsHeader.Write\<close>. After the second value of \<^verbatim>\<open>flag\<close> is built the
  source goes on to the four counts: no call writes that value.
\<close>

definition DnsHeader_Write :: "DnsHeader \<Rightarrow> BytePacketBuffer \<Rightarrow> error + BytePacketBuffer" where
  "DnsHeader_Write h buffer =
     bindE (Write2Byte buffer (ID h)) (\<lambda>b1.
     bindE (Write1Byte b1 (flag_byte1 h)) (\<lambda>b2.
     let flag = flag_byte2 h in
     bindE (Write2Byte b2 (Questions h)) (\<lambda>b3.
     bindE (Write2Byte b3 (Answers h)) (\<lambda>b4.
     bindE (Write2Byte b4 (AuthoritativeEntries h)) (\<lambda>b5.
       Write2Byte b5 (ResourceEntries h))))))"

fun FromNum2ResultCode :: "byte \<Rightarrow> ResultCode" where
  "FromNum2ResultCode num =
     (if num = 1 then FORMERR
      else if num = 2 then SERVFAIL
      else if num = 3 then NXDOMAIN
      else if num = 4 then NOTIMP
      else if num = 5 then REFUSED
      else NOERROR)"

text \<open>\<^verbatim>\<open>DnsHeader.Read\<close> assigns every field of its receiver.\<close>

definition DnsHeader_Read :: "BytePacketBuffer \<Rightarrow> error + (DnsHeader \<times> BytePacketBuffer)" where
  "DnsHeader_Read buffer =
     bindE (Read2Bytes buffer) (\<lambda>(id', b1).
     bindE (Read2Bytes b1) (\<lambda>(flags, b2).
     let a = (ucast (drop_bit 8 flags) :: byte);
         b = (ucast (flags AND 0xFF) :: byte) in
     bindE (Read2Bytes b2) (\<lambda>(questions, b3).
     bindE (Read2Bytes b3) (\<lambda>(answers, b4).
     bindE (Read2Bytes b4) (\<lambda>(authoritativeEntries, b5).
     bindE (Read2Bytes b5) (\<lambda>(resourceEntries, b6).
        Inr (\<lparr>ID = id',
              RecursionDesired = (a AND push_bit 0 1 > 0),
              TruncatedMessage = (a AND push_bit 1 1 > 0),
              AuthoritativeAnswer = (a AND push_bit 2 1 > 0),
              Opcode = drop_bit 3 a AND 0x0F,
              Response = (a AND push_bit 7 1 > 0),
              Rescode = FromNum2ResultCode (b AND 0x0F),
              CheckingDisabled = (b AND push_bit 4 1 > 0),
              AuthedData = (b AND push_bit 5 1 > 0),
              Z = (b AND push_bit 6 1 > 0),
              RecursionAvailable = (b AND push_bit 7 1 > 0),
              Questions = questions,
              Answers = answers,
              AuthoritativeEntries = authoritativeEntries,
              ResourceEntries = resourceEntries\<rparr>, b6)))))))"

fun RecordTypeToNum :: "RecordType \<Rightarrow> uint16" where
  "RecordTypeToNum A = 1"
| "RecordTypeToNum NS = 2"
| "RecordTypeToNum CNAME = 5"
| "RecordTypeToNum MX = 15"
| "RecordTypeToNum AAAA = 28"
| "RecordTypeToNum UNKNOWN = 0"

fun FromNum2RecordType :: "uint16 \<Rightarrow> RecordType" where
  "FromNum2RecordType num =
     (if num = 1 then A
      else if num = 2 then NS
      else if num = 5 then CNAME
      else if num = 15 then MX
      else if num = 28 then AAAA
      else UNKNOWN)"

text \<open>
  \<^verbatim>\<open>type DnsQuestion struct { Name string; Type RecordType }\<close>. The field
  \<^verbatim>\<open>Type\<close> is \<open>QuestionType\<close> here, \<open>Type\<close> being the field of \<open>DnsRecord\<close>.
\<close>

record DnsQuestion =
  Name :: string
  QuestionType :: RecordType

definition NewDnsQuestion :: "string \<Rightarrow> RecordType \<Rightarrow> DnsQuestion" where
  "NewDnsQuestion name qtype = \<lparr>Name = name, QuestionType = qtype\<rparr>"

text \<open>\<^verbatim>\<open>DnsQuestion.Write\<close>: the type field is \<^verbatim>\<open>uint16(dq.Type)\<close>.\<close>

definition DnsQuestion_Write :: "DnsQuestion \<Rightarrow> BytePacketBuffer \<Rightarrow> error + BytePacketBuffer" where
  "DnsQuestion_Write dq buffer =
     bindE (WriteQName buffer (Name dq)) (\<lambda>b1.
     bindE (Write2Byte b1 (of_nat (RecordType_iota (QuestionType dq)))) (\<lambda>b2.
       Write2Byte b2 1))"

definition DnsQuestion_Read ::
  "(string \<Rightarrow> string) \<Rightarrow> BytePacketBuffer \<Rightarrow> error + (DnsQuestion \<times> BytePacketBuffer)" where
  "DnsQuestion_Read uni buffer =
     bindE (ReadQName uni buffer) (\<lambda>(name, b1).
     bindE (Read2Bytes b1) (\<lambda>(qtype, b2).
     bindE (Read2Bytes b2) (\<lambda>(class, b3).
       Inr (\<lparr>Name = name, QuestionType = FromNum2RecordType qtype\<rparr>, b3))))"


subsection \<open>Records\<close>

text \<open>
  \<^verbatim>\<open>net.IP\<close> is a byte slice. \<^verbatim>\<open>net.IPv4\<close>, \<^verbatim>\<open>To4\<close> and \<^verbatim>\<open>To16\<close>
  are the Go library's: an IPv4 address is kept in 16 bytes behind the prefix
  of ten zero bytes and two \<open>0xff\<close>; \<open>None\<close> is Go's \<^verbatim>\<open>nil\<close>.
\<close>

definition IPv4 :: "byte \<Rightarrow> byte \<Rightarrow> byte \<Rightarrow> byte \<Rightarrow> byte list" where
  "IPv4 a b c d = replicate 10 0 @ [0xff, 0xff, a, b, c, d]"

definition To4 :: "byte list \<Rightarrow> byte list option" where
  "To4 ip =
     (if length ip = 4 then Some ip
      else if length ip = 16 \<and> take 10 ip = replicate 10 0
                \<and> ip ! 10 = 0xff \<and> ip ! 11 = 0xff
        then Some (drop 12 ip)
        else None)"

definition To16 :: "byte list \<Rightarrow> byte list option" where
  "To16 ip =
     (if length ip = 4 then Some (IPv4 (ip ! 0) (ip ! 1) (ip ! 2) (ip ! 3))
      else if length ip = 16 then Some ip
      else None)"

record DnsRecord =
  Type :: RecordType
  Domain :: string
  QType :: uint16
  DataLen :: uint16
  TTL :: uint32
  Addr :: "byte list"
  Host :: string
  Priority :: uint16

text \<open>The constructors leave the fields they do not name at Go's zero value.\<close>

definition NewUnknownDnsRecord :: "string \<Rightarrow> uint16 \<Rightarrow> uint16 \<Rightarrow> uint32 \<Rightarrow> DnsRecord" where
  "NewUnknownDnsRecord domain qtype dataLen ttl =
     \<lparr>Type = UNKNOWN, Domain = domain, QType = qtype, DataLen = dataLen, TTL = ttl,
      Addr = [], Host = [], Priority = 0\<rparr>"

definition NewADnsRecord :: "string \<Rightarrow> byte list \<Rightarrow> uint32 \<Rightarrow> DnsRecord" where
  "NewADnsRecord domain addr ttl =
     \<lparr>Type = A, Domain = domain, QType = 0, DataLen = 0, TTL = ttl,
      Addr = addr, Host = [], Priority = 0\<rparr>"

definition NewNSDnsRecord :: "string \<Rightarrow> string \<Rightarrow> uint32 \<Rightarrow> DnsRecord" where
  "NewNSDnsRecord domain host ttl =
     \<lparr>Type = NS, Domain = domain, QType = 0, DataLen = 0, TTL = ttl,
      Addr = [], Host = host, Priority = 0\<rparr>"

definition NewCNameDnsRecord :: "string \<Rightarrow> string \<Rightarrow> uint32 \<Rightarrow> DnsRecord" where
  "NewCNameDnsRecord domain host ttl =
     \<lparr>Type = CNAME, Domain = domain, QType = 0, DataLen = 0, TTL = ttl,
      Addr = [], Host = host, Priority = 0\<rparr>"

definition NewMXDnsRecord :: "string \<Rightarrow> string \<Rightarrow> uint16 \<Rightarrow> uint32 \<Rightarrow> DnsRecord" where
  "NewMXDnsRecord domain host priority ttl =
     \<lparr>Type = MX, Domain = domain, QType = 0, DataLen = 0, TTL = ttl,
      Addr = [], Host = host, Priority = priority\<rparr>"

definition NewAAAADnsRecord :: "string \<Rightarrow> byte list \<Rightarrow> uint32 \<Rightarrow> DnsRecord" where
  "NewAAAADnsRecord domain addr ttl =
     \<lparr>Type = AAAA, Domain = domain, QType = 0, DataLen = 0, TTL = ttl,
      Addr = addr, Host = [], Priority = 0\<rparr>"

text \<open>The four bytes of a \<^verbatim>\<open>uint32\<close>, most significant first.\<close>

definition bytes_of_uint32 :: "uint32 \<Rightarrow> byte list" where
  "bytes_of_uint32 w =
     [ucast (drop_bit 24 w AND 0xFF), ucast (drop_bit 16 w AND 0xFF),
      ucast (drop_bit 8 w AND 0xFF), ucast (w AND 0xFF)]"

definition ReadDnsRecord ::
  "(string \<Rightarrow> string) \<Rightarrow> BytePacketBuffer \<Rightarrow> error + (DnsRecord \<times> BytePacketBuffer)" where
  "ReadDnsRecord uni buffer =
     bindE (ReadQName uni buffer) (\<lambda>(domain, b1).
     bindE (Read2Bytes b1) (\<lambda>(qtypeNum, b2).
     let qtype = FromNum2RecordType qtypeNum in
     bindE (Read2Bytes b2) (\<lambda>(class, b3).
     bindE (Read4Bytes b3) (\<lambda>(ttl, b4).
     bindE (Read2Bytes b4) (\<lambda>(dataLen, b5).
       (case qtype of
          A \<Rightarrow>
            bindE (Read4Bytes b5) (\<lambda>(rawAddr, b6).
              Inr (NewADnsRecord domain
                     (IPv4 (ucast (drop_bit 24 rawAddr AND 0xFF))
                           (ucast (drop_bit 16 rawAddr AND 0xFF))
                           (ucast (drop_bit 8 rawAddr AND 0xFF))
                           (ucast (rawAddr AND 0xFF))) ttl, b6))
        | AAAA \<Rightarrow>
            bindE (Read4Bytes b5) (\<lambda>(raw_addr1, b6).
            bindE (Read4Bytes b6) (\<lambda>(raw_addr2, b7).
            bindE (Read4Bytes b7) (\<lambda>(raw_addr3, b8).
            bindE (Read4Bytes b8) (\<lambda>(raw_addr4, b9).
              Inr (NewAAAADnsRecord domain
                     (bytes_of_uint32 raw_addr1 @ bytes_of_uint32 raw_addr2
                        @ bytes_of_uint32 raw_addr3 @ bytes_of_uint32 raw_addr4) ttl, b9)))))
        | NS \<Rightarrow>
            bindE (ReadQName uni b5) (\<lambda>(ns, b6).
              Inr (NewNSDnsRecord domain ns ttl, b6))
        | CNAME \<Rightarrow>
            bindE (ReadQName uni b5) (\<lambda>(cname, b6).
              Inr (NewCNameDnsRecord domain cname ttl, b6))
        | MX \<Rightarrow>
            bindE (Read2Bytes b5) (\<lambda>(priority, b6).
            bindE (ReadQName uni b6) (\<lambda>(mx, b7).
              Inr (NewMXDnsRecord domain mx priority ttl, b7)))
        | UNKNOWN \<Rightarrow>
            bindE (Step b5 dataLen) (\<lambda>b6.
              Inr (\<lparr>Type = UNKNOWN, Domain = domain, QType = qtypeNum,
                    DataLen = dataLen, TTL = ttl, Addr = [], Host = [],
                    Priority = 0\<rparr>, b6))))))))"

text \<open>
  \<^verbatim>\<open>DnsRecord.Write\<close>, one definition for each case of its \<^verbatim>\<open>switch\<close>; each
  gives the buffer at the end of the case. Name, type, class and TTL are
  written inside the cases.
\<close>

definition Write_case_A :: "DnsRecord \<Rightarrow> BytePacketBuffer \<Rightarrow> error + BytePacketBuffer" where
  "Write_case_A d buffer =
     bindE (WriteQName buffer (Domain d)) (\<lambda>b1.
     bindE (Write2Byte b1 (RecordTypeToNum A)) (\<lambda>b2.
     bindE (Write2Byte b2 1) (\<lambda>b3.
     bindE (Write4Byte b3 (TTL d)) (\<lambda>b4.
     bindE (Write2Byte b4 4) (\<lambda>b5.
       (case To4 (Addr d) of
          None \<Rightarrow> Inl InvalidIPv4
        | Some ip \<Rightarrow>
            bindE (Write1Byte b5 (ip ! 0)) (\<lambda>b6.
            bindE (Write1Byte b6 (ip ! 1)) (\<lambda>b7.
            bindE (Write1Byte b7 (ip ! 2)) (\<lambda>b8.
              Write1Byte b8 (ip ! 3))))))))))"

text \<open>The cases \<^verbatim>\<open>NS\<close> and \<^verbatim>\<open>CNAME\<close> differ in the type written only.\<close>

definition Write_case_host ::
  "RecordType \<Rightarrow> DnsRecord \<Rightarrow> BytePacketBuffer \<Rightarrow> error + BytePacketBuffer" where
  "Write_case_host typ d buffer =
     bindE (WriteQName buffer (Domain d)) (\<lambda>b1.
     bindE (Write2Byte b1 (RecordTypeToNum typ)) (\<lambda>b2.
     bindE (Write2Byte b2 1) (\<lambda>b3.
     bindE (Write4Byte b3 (TTL d)) (\<lambda>b4.
     let pos = Pos b4 in
     bindE (Write2Byte b4 0) (\<lambda>b5.
     bindE (WriteQName b5 (Host d)) (\<lambda>b6.
     let size = Pos b6 - (pos + 2) in
       Set2Bytes b6 pos size))))))"

definition Write_case_MX :: "DnsRecord \<Rightarrow> BytePacketBuffer \<Rightarrow> error + BytePacketBuffer" where
  "Write_case_MX d buffer =
     bindE (WriteQName buffer (Domain d)) (\<lambda>b1.
     bindE (Write2Byte b1 (RecordTypeToNum MX)) (\<lambda>b2.
     bindE (Write2Byte b2 1) (\<lambda>b3.
     bindE (Write4Byte b3 (TTL d)) (\<lambda>b4.
     let pos = Pos b4 in
     bindE (Write2Byte b4 0) (\<lambda>b5.
     bindE (Write2Byte b5 (Priority d)) (\<lambda>b6.
     bindE (WriteQName b6 (Host d)) (\<lambda>b7.
     let size = Pos b7 - (pos + 2) in
       Set2Bytes b7 pos size)))))))"

text \<open>
  \<^verbatim>\<open>for i := 0; i < len(ip); i += 2\<close> over the 16 bytes \<^verbatim>\<open>To16\<close> returns,
  writing \<^verbatim>\<open>binary.BigEndian.Uint16(ip[i : i+2])\<close>.
\<close>

fun write_segments :: "BytePacketBuffer \<Rightarrow> byte list \<Rightarrow> error + BytePacketBuffer" where
  "write_segments b (x # y # rest) =
     bindE (Write2Byte b (push_bit 8 (ucast x) OR ucast y)) (\<lambda>b'. write_segments b' rest)"
| "write_segments b [x] = Inl Panic"
| "write_segments b [] = Inr b"

definition Write_case_AAAA :: "DnsRecord \<Rightarrow> BytePacketBuffer \<Rightarrow> error + BytePacketBuffer" where
  "Write_case_AAAA d buffer =
     bindE (WriteQName buffer (Domain d)) (\<lambda>b1.
     bindE (Write2Byte b1 (RecordTypeToNum AAAA)) (\<lambda>b2.
     bindE (Write2Byte b2 1) (\<lambda>b3.
     bindE (Write4Byte b3 (TTL d)) (\<lambda>b4.
     let pos = Pos b4 in
     bindE (Write2Byte b4 16) (\<lambda>b5.
       (case To16 (Addr d) of
          None \<Rightarrow> Inl InvalidIPv6
        | Some ip \<Rightarrow>
            bindE (write_segments b5 ip) (\<lambda>b6.
            let size = Pos b6 - (pos + 2) in
              Set2Bytes b6 pos size)))))))"

text \<open>
  \<^verbatim>\<open>DnsRecord.Write\<close>. The case \<^verbatim>\<open>UNKNOWN\<close> prints a line and touches
  nothing in the buffer; the count returned is \<^verbatim>\<open>buffer.Pos - startPos\<close>.
\<close>

definition DnsRecord_Write ::
  "DnsRecord \<Rightarrow> BytePacketBuffer \<Rightarrow> error + (uint16 \<times> BytePacketBuffer)" where
  "DnsRecord_Write d buffer =
     (let startPos = Pos buffer in
      bindE (case Type d of
               A \<Rightarrow> Write_case_A d buffer
             | NS \<Rightarrow> Write_case_host NS d buffer
             | CNAME \<Rightarrow> Write_case_host CNAME d buffer
             | MX \<Rightarrow> Write_case_MX d buffer
             | AAAA \<Rightarrow> Write_case_AAAA d buffer
             | UNKNOWN \<Rightarrow> Inr buffer)
        (\<lambda>b'. Inr (Pos b' - startPos, b')))"

subsection \<open>Whole packets\<close>

text \<open>
  \<^verbatim>\<open>type DnsPacket struct\<close>. Its fields \<^verbatim>\<open>Questions\<close> and \<^verbatim>\<open>Answers\<close> are
  \<open>PacketQuestions\<close> and \<open>PacketAnswers\<close> here, apart from the header's counts.
\<close>

record DnsPacket =
  Header :: DnsHeader
  PacketQuestions :: "DnsQuestion list"
  PacketAnswers :: "DnsRecord list"
  Authorities :: "DnsRecord list"
  Resources :: "DnsRecord list"

definition NewDnsPacket :: DnsPacket where
  "NewDnsPacket =
     \<lparr>Header = NewDnsHeader, PacketQuestions = [], PacketAnswers = [],
      Authorities = [], Resources = []\<rparr>"

fun write_questions :: "DnsQuestion list \<Rightarrow> BytePacketBuffer \<Rightarrow> error + BytePacketBuffer" where
  "write_questions [] b = Inr b"
| "write_questions (q # qs) b =
     bindE (DnsQuestion_Write q b) (\<lambda>b'. write_questions qs b')"

fun write_records :: "DnsRecord list \<Rightarrow> BytePacketBuffer \<Rightarrow> error + BytePacketBuffer" where
  "write_records [] b = Inr b"
| "write_records (r # rs) b =
     bindE (DnsRecord_Write r b) (\<lambda>(n, b'). write_records rs b')"

text \<open>
  \<^verbatim>\<open>DnsPacket.Write\<close> stores the four list lengths in the header (as
  \<^verbatim>\<open>uint16\<close>) before writing it; the packet returned is the receiver after that.
\<close>

definition DnsPacket_Write ::
  "DnsPacket \<Rightarrow> BytePacketBuffer \<Rightarrow> error + (DnsPacket \<times> BytePacketBuffer)" where
  "DnsPacket_Write d buffer =
     (let h = (Header d)\<lparr>Questions := of_nat (length (PacketQuestions d)),
                         Answers := of_nat (length (PacketAnswers d)),
                         AuthoritativeEntries := of_nat (length (Authorities d)),
                         ResourceEntries := of_nat (length (Resources d))\<rparr> in
      bindE (DnsHeader_Write h buffer) (\<lambda>b1.
      bindE (write_questions (PacketQuestions d) b1) (\<lambda>b2.
      bindE (write_records (PacketAnswers d) b2) (\<lambda>b3.
      bindE (write_records (Authorities d) b3) (\<lambda>b4.
      bindE (write_records (Resources d) b4) (\<lambda>b5.
        Inr (d\<lparr>Header := h\<rparr>, b5)))))))"

text \<open>The loops \<^verbatim>\<open>for i := 0; i < int(count); i++\<close> of the decoder.\<close>

fun read_questions ::
  "(string \<Rightarrow> string) \<Rightarrow> nat \<Rightarrow> BytePacketBuffer \<Rightarrow> error + (DnsQuestion list \<times> BytePacketBuffer)" where
  "read_questions uni 0 b = Inr ([], b)"
| "read_questions uni (Suc n) b =
     bindE (DnsQuestion_Read uni b) (\<lambda>(q, b1).
     bindE (read_questions uni n b1) (\<lambda>(qs, b2).
       Inr (q # qs, b2)))"

fun read_records ::
  "(string \<Rightarrow> string) \<Rightarrow> nat \<Rightarrow> BytePacketBuffer \<Rightarrow> error + (DnsRecord list \<times> BytePacketBuffer)" where
  "read_records uni 0 b = Inr ([], b)"
| "read_records uni (Suc n) b =
     bindE (ReadDnsRecord uni b) (\<lambda>(r, b1).
     bindE (read_records uni n b1) (\<lambda>(rs, b2).
       Inr (r # rs, b2)))"

definition FromBuffer2DnsPacket ::
  "(string \<Rightarrow> string) \<Rightarrow> BytePacketBuffer \<Rightarrow> error + (DnsPacket \<times> BytePacketBuffer)" where
  "FromBuffer2DnsPacket uni buffer =
     bindE (DnsHeader_Read buffer) (\<lambda>(h, b1).
     bindE (read_questions uni (unat (Questions h)) b1) (\<lambda>(qs, b2).
     bindE (read_records uni (unat (Answers h)) b2) (\<lambda>(ans, b3).
     bindE (read_records uni (unat (AuthoritativeEntries h)) b3) (\<lambda>(auths, b4).
     bindE (read_records uni (unat (ResourceEntries h)) b4) (\<lambda>(res, b5).
       Inr (\<lparr>Header = h, PacketQuestions = qs, PacketAnswers = ans,
             Authorities = auths, Resources = res\<rparr>, b5))))))"


section \<open>Notions used to state the properties\<close>

text \<open>
  The bytes \<^verbatim>\<open>WriteQName\<close> sends to the buffer for a name, read off its two
  loops: for every piece of the name its length, its bytes and a zero byte.
\<close>

definition qname_wire :: "string \<Rightarrow> byte list" where
  "qname_wire qname =
     concat (map (\<lambda>label. of_nat (length label) # bytes_of_string label @ [0])
                 (split_dot qname))"

text \<open>
  \<open>emits b bs b'\<close>: from the buffer \<open>b\<close>, the bytes \<open>bs\<close> were stored at the
  cursor, which moved past them, and nothing else changed.
\<close>

definition emits :: "BytePacketBuffer \<Rightarrow> byte list \<Rightarrow> BytePacketBuffer \<Rightarrow> bool" where
  "emits b bs b' \<longleftrightarrow>
     length (Buf b) = 512 \<and> unat (Pos b) + length bs \<le> 512 \<and>
     Buf b' = take (unat (Pos b)) (Buf b) @ bs @ drop (unat (Pos b) + length bs) (Buf b) \<and>
     unat (Pos b') = unat (Pos b) + length bs"

text \<open>
  The two bytes of a \<^verbatim>\<open>uint16\<close>, most significant first; a name all of whose
  labels have at most 63 bytes; and the bytes of an NS or CNAME record on the
  wire: name, type, class, TTL, the length of the host name as written, and
  the host name.
\<close>

definition bytes_of_uint16 :: "uint16 \<Rightarrow> byte list" where
  "bytes_of_uint16 w = [ucast (drop_bit 8 w), ucast (w AND 0xFF)]"

definition labels_fit :: "string \<Rightarrow> bool" where
  "labels_fit qname \<longleftrightarrow> list_all (\<lambda>label. length label \<le> 63) (split_dot qname)"

definition host_record_wire :: "DnsRecord \<Rightarrow> byte list" where
  "host_record_wire d =
     qname_wire (Domain d) @ bytes_of_uint16 (RecordTypeToNum (Type d)) @ bytes_of_uint16 1
       @ bytes_of_uint32 (TTL d)
       @ bytes_of_uint16 (of_nat (length (qname_wire (Host d))))
       @ qname_wire (Host d)"

text \<open>
  The claim about a record of unknown type, as the specification words it: the
  count returned is the number of bytes of the name, type, class and TTL fields.
\<close>

definition unknown_count_as_specified :: "DnsRecord \<Rightarrow> BytePacketBuffer \<Rightarrow> bool" where
  "unknown_count_as_specified d buffer =
     (case DnsRecord_Write d buffer of
        Inl e \<Rightarrow> False
      | Inr (n, b') \<Rightarrow> unat n = length (qname_wire (Domain d)) + 2 + 2 + 4)"

text \<open>
  Names on the wire, as the decoder is specified: a length byte whose two top
  bits are set starts a pointer, whose other six bits and the next byte are an
  offset into the same packet.
\<close>

definition is_pointer :: "byte \<Rightarrow> bool" where
  "is_pointer lenByte \<longleftrightarrow> lenByte AND 0xC0 = 0xC0"

definition pointer_target :: "byte \<Rightarrow> byte \<Rightarrow> nat" where
  "pointer_target lenByte b2 = (unat lenByte mod 64) * 256 + unat b2"

text \<open>
  \<open>wire_name buf p k ls\<close>: the bytes of \<open>buf\<close> from position \<open>p\<close> are a name
  with the labels \<open>ls\<close> (a zero byte ends it), reached through \<open>k\<close> pointers.
\<close>

inductive wire_name :: "byte list \<Rightarrow> nat \<Rightarrow> nat \<Rightarrow> byte list list \<Rightarrow> bool"
  for buf :: "byte list" where
  wn_end: "p < 512 \<Longrightarrow> buf ! p = 0 \<Longrightarrow> wire_name buf p 0 []"
| wn_label: "p < 512 \<Longrightarrow> buf ! p \<noteq> 0 \<Longrightarrow> \<not> is_pointer (buf ! p) \<Longrightarrow>
     wire_name buf (p + 1 + unat (buf ! p)) k ls \<Longrightarrow>
     wire_name buf p k (take (unat (buf ! p)) (drop (p + 1) buf) # ls)"
| wn_pointer: "p + 1 < 512 \<Longrightarrow> is_pointer (buf ! p) \<Longrightarrow>
     wire_name buf (pointer_target (buf ! p) (buf ! (p + 1))) k ls \<Longrightarrow>
     wire_name buf p (Suc k) ls"

code_pred wire_name .

text \<open>
  \<open>pointer_chain buf p n\<close>: reading a name from position \<open>p\<close> meets at least
  \<open>n\<close> pointers, whether or not the name ever ends.
\<close>

inductive pointer_chain :: "byte list \<Rightarrow> nat \<Rightarrow> nat \<Rightarrow> bool"
  for buf :: "byte list" where
  pc_zero: "pointer_chain buf p 0"
| pc_label: "p < 512 \<Longrightarrow> buf ! p \<noteq> 0 \<Longrightarrow> \<not> is_pointer (buf ! p) \<Longrightarrow>
     p + 1 + unat (buf ! p) < 512 \<Longrightarrow>
     pointer_chain buf (p + 1 + unat (buf ! p)) n \<Longrightarrow> pointer_chain buf p n"
| pc_pointer: "p + 1 < 512 \<Longrightarrow> is_pointer (buf ! p) \<Longrightarrow>
     pointer_chain buf (pointer_target (buf ! p) (buf ! (p + 1))) n \<Longrightarrow>
     pointer_chain buf p (Suc n)"

code_pred pointer_chain .

text \<open>The labels in lower case, joined by dots.\<close>

fun dotted_from :: "(string \<Rightarrow> string) \<Rightarrow> string \<Rightarrow> byte list list \<Rightarrow> string" where
  "dotted_from uni delim [] = []"
| "dotted_from uni delim (l # ls) =
     delim @ ToLower uni (string_of_bytes l) @ dotted_from uni ''.'' ls"

text \<open>Two pointers, at \<open>p\<close> and at \<open>q\<close>, each with the other as its target.\<close>

definition pointers_at_each_other :: "byte list \<Rightarrow> nat \<Rightarrow> nat \<Rightarrow> bool" where
  "pointers_at_each_other buf p q \<longleftrightarrow>
     p + 1 < 512 \<and> q + 1 < 512 \<and> is_pointer (buf ! p) \<and> is_pointer (buf ! q) \<and>
     pointer_target (buf ! p) (buf ! (p + 1)) = q \<and>
     pointer_target (buf ! q) (buf ! (q + 1)) = p"

text \<open>The label sequence \<open>[3]www[6]google[3]com[0]\<close>.\<close>

definition www_google_com :: "byte list" where
  "www_google_com =
     [3] @ bytes_of_string ''www'' @ [6] @ bytes_of_string ''google''
       @ [3] @ bytes_of_string ''com'' @ [0]"

definition dotted :: "(string \<Rightarrow> string) \<Rightarrow> byte list list \<Rightarrow> string" where
  "dotted uni ls = dotted_from uni [] ls"

text \<open>
  Three packets: the name \<open>www.google.com\<close> at offset 0 with a pointer to it at
  the cursor; two pointers at each other; six pointers in a row before the root
  name.
\<close>

definition pointer_example :: BytePacketBuffer where
  "pointer_example =
     (SetBuffer NewBytePacketBuffer (www_google_com @ [0xC0, 0]))\<lparr>Pos := 16\<rparr>"

definition cycle_example :: BytePacketBuffer where
  "cycle_example = SetBuffer NewBytePacketBuffer [0xC0, 2, 0xC0, 0]"

definition six_jumps_example :: BytePacketBuffer where
  "six_jumps_example =
     SetBuffer NewBytePacketBuffer
       [0xC0, 2, 0xC0, 4, 0xC0, 6, 0xC0, 8, 0xC0, 10, 0xC0, 12, 0]"

text \<open>
  Two messages: the query \<^verbatim>\<open>main\<close> sends (id 6666, recursion desired, one
  question for the A records of \<open>google.com\<close>), and an empty response with the
  flags RD and RA.
\<close>

definition query_example :: DnsPacket where
  "query_example =
     NewDnsPacket
       \<lparr>Header := NewDnsHeader\<lparr>ID := 6666, RecursionDesired := True, Questions := 1\<rparr>,
        PacketQuestions := [NewDnsQuestion ''google.com'' A]\<rparr>"

definition response_example :: DnsPacket where
  "response_example =
     NewDnsPacket
       \<lparr>Header := NewDnsHeader\<lparr>ID := 6666, RecursionDesired := True, Response := True,
                                 RecursionAvailable := True\<rparr>\<rparr>"

text \<open>
  Encoding a message into a fresh buffer and decoding the bytes written, from
  the start of the buffer.
\<close>

definition decode_encode :: "(string \<Rightarrow> string) \<Rightarrow> DnsPacket \<Rightarrow> error + DnsPacket" where
  "decode_encode uni m =
     bindE (DnsPacket_Write m NewBytePacketBuffer) (\<lambda>(m', b).
     bindE (Seek b 0) (\<lambda>b0.
     bindE (FromBuffer2DnsPacket uni b0) (\<lambda>(d, b1). Inr d)))"

section \<open>The cursor buffer: bounds, seek and step\<close>

lemma Get_in_range: "unat pos \<le> 511 \<Longrightarrow> Get b pos = Inr (Buf b ! unat pos)"
  by (simp add: Get_def word_le_nat_alt)

lemma Get_out_of_range: "512 \<le> unat pos \<Longrightarrow> Get b pos = Inl EndOfBuffer"
  by (simp add: Get_def word_le_nat_alt)

lemma Read_in_range:
  "unat (Pos b) \<le> 511 \<Longrightarrow> Read b = Inr (Buf b ! unat (Pos b), b\<lparr>Pos := Pos b + 1\<rparr>)"
  by (simp add: Read_def word_le_nat_alt)

lemma Read_out_of_range: "512 \<le> unat (Pos b) \<Longrightarrow> Read b = Inl EndOfBuffer"
  by (simp add: Read_def word_le_nat_alt)

lemma GetRange_no_overflow:
  assumes "unat start + unat len < 65536"
  shows "GetRange b start len =
           (if 512 \<le> unat start + unat len then Inl EndOfBuffer
            else Inr (take (unat len) (drop (unat start) (Buf b))))"
proof -
  have "unat (start + len) = unat start + unat len"
    using assms by (simp add: unat_word_ariths)
  then show ?thesis
    by (simp add: GetRange_def word_le_nat_alt)
qed

text \<open>
  C8. \<^verbatim>\<open>Get\<close> and \<^verbatim>\<open>Read\<close> behave as claimed (the four lemmas above), and so
  does \<^verbatim>\<open>GetRange\<close> as long as \<open>start + len\<close> fits 16 bits. The sum is
  computed in \<^verbatim>\<open>uint16\<close>, though: \<^verbatim>\<open>GetRange(65535, 2)\<close> has
  \<open>start + len = 65537\<close>, far beyond 512, yet the wrapped sum is 1, the bounds
  check passes and the slice expression \<^verbatim>\<open>b.Buf[65535:1]\<close> panics instead of
  returning the end-of-buffer error.
\<close>

theorem GetRange_wraps_past_check:
  "GetRange NewBytePacketBuffer 65535 2 = Inl Panic"
  by code_simp

text \<open>
  C10. \<^verbatim>\<open>Seek\<close> and \<^verbatim>\<open>Step\<close> never fail and check nothing: \<^verbatim>\<open>Seek\<close> sets
  the cursor to \<open>pos\<close>, \<^verbatim>\<open>Step\<close> adds \<open>n\<close> modulo \<open>2^16\<close>. A cursor at or
  beyond 512 makes the next \<^verbatim>\<open>Read\<close>, \<^verbatim>\<open>Get\<close> at the cursor and write fail
  with the end-of-buffer error. Reading a record of unknown type with data
  length \<open>dl\<close>, whatever \<open>dl\<close> is, succeeds and leaves the cursor at
  \<open>11 + dl\<close> modulo \<open>2^16\<close> (here the record starts at 0 and has the root name).
\<close>

theorem Seek_Step_unchecked:
  "Seek b pos = Inr (b\<lparr>Pos := pos\<rparr>) \<and>
   Step b n = Inr (b\<lparr>Pos := Pos b + n\<rparr>) \<and>
   unat (Pos b + n) = (unat (Pos b) + unat n) mod 2 ^ 16 \<and>
   (512 \<le> unat (Pos b) \<longrightarrow>
      Read b = Inl EndOfBuffer \<and> Get b (Pos b) = Inl EndOfBuffer \<and>
      write_val b v = Inl EndOfBuffer) \<and>
   map_sum id (\<lambda>(r, b'). (Type r, DataLen r, Pos b'))
     (ReadDnsRecord uni
        (SetBuffer NewBytePacketBuffer
           [0, 0, 99, 0, 1, 0, 0, 0, 0, ucast (drop_bit 8 dl), ucast (dl AND 0xFF)]))
     = Inr (UNKNOWN, dl, 11 + dl)"
proof -
  have ff: "(0xFF::uint16) = mask 8"
    by (simp add: mask_eq_exp_minus_1)
  have dl: "push_bit 8 (ucast (ucast (drop_bit 8 dl :: uint16) :: byte))
              OR ucast (ucast (dl AND 0xFF) :: byte) = dl"
    unfolding ff by (rule bit_word_eqI) (auto simp add: bit_simps)
  have rec: "map_sum id (\<lambda>(r, b'). (Type r, DataLen r, Pos b'))
     (ReadDnsRecord uni
        (SetBuffer NewBytePacketBuffer
           [0, 0, 99, 0, 1, 0, 0, 0, 0, ucast (drop_bit 8 dl), ucast (dl AND 0xFF)]))
     = Inr (UNKNOWN, dl, 11 + dl)"
    by (simp add: ReadDnsRecord_def ReadQName_def ReadQName_loop.simps maxJums_def Get_def
          Seek_def Step_def
          Read2Bytes_def Read4Bytes_def Read_def SetBuffer_def NewBytePacketBuffer_def
          Let_def dl word_le_nat_alt)
  show ?thesis
    by (simp add: Seek_def Step_def Read_def Get_def write_val_def word_le_nat_alt
          unat_word_ariths rec)
qed

theorem Seek_Step_unchecked_witness:
  "512 \<le> unat (Pos (NewBytePacketBuffer\<lparr>Pos := 600\<rparr>)) \<and>
   Read (NewBytePacketBuffer\<lparr>Pos := 600\<rparr>) = Inl EndOfBuffer \<and>
   Step (NewBytePacketBuffer\<lparr>Pos := 600\<rparr>) 65000 = Inr (NewBytePacketBuffer\<lparr>Pos := 64\<rparr>)"
  using Seek_Step_unchecked [of "NewBytePacketBuffer\<lparr>Pos := 600\<rparr>" 0 65000 0 id 0]
  by simp

section \<open>What the writes store\<close>

lemma emits_wf: "emits b bs b' \<Longrightarrow> wf_buffer b'"
  by (auto simp: emits_def wf_buffer_def)

lemma emits_Nil: "wf_buffer b \<Longrightarrow> unat (Pos b) \<le> 512 \<Longrightarrow> emits b [] b"
  by (simp add: emits_def wf_buffer_def)

lemma emits_trans:
  assumes "emits b xs b1" and "emits b1 ys b2"
  shows "emits b (xs @ ys) b2"
proof -
  let ?p = "unat (Pos b)"
  from assms(1) have len: "length (Buf b) = 512" and p: "?p + length xs \<le> 512"
    and b1: "Buf b1 = take ?p (Buf b) @ xs @ drop (?p + length xs) (Buf b)"
    and p1: "unat (Pos b1) = ?p + length xs"
    by (simp_all add: emits_def)
  from assms(2) p1 have q: "?p + (length xs + length ys) \<le> 512"
    and b2: "Buf b2 = take (?p + length xs) (Buf b1) @ ys
               @ drop (?p + (length xs + length ys)) (Buf b1)"
    and p2: "unat (Pos b2) = ?p + (length xs + length ys)"
    by (simp_all add: emits_def add.assoc)
  have t: "take (?p + length xs) (Buf b1) = take ?p (Buf b) @ xs"
    using len p by (simp add: b1)
  have d: "drop (?p + (length xs + length ys)) (Buf b1)
             = drop (?p + (length xs + length ys)) (Buf b)"
    using len p by (simp add: b1 ac_simps)
  show ?thesis
    using len q p2 by (simp add: emits_def b2 t d)
qed

lemma write_val_emits:
  assumes "wf_buffer b" and "write_val b v = Inr b'"
  shows "emits b [v] b'"
proof -
  from assms(2) have lt: "unat (Pos b) < 512"
    and b': "b' = b\<lparr>Buf := (Buf b)[unat (Pos b) := v], Pos := Pos b + 1\<rparr>"
    by (auto simp: write_val_def word_le_nat_alt split: if_splits)
  from lt have "unat (Pos b + 1) = unat (Pos b) + 1"
    by (simp add: unat_word_ariths)
  then show ?thesis
    using assms(1) lt by (simp add: emits_def wf_buffer_def b' upd_conv_take_nth_drop)
qed

lemma Write1Byte_emits: "wf_buffer b \<Longrightarrow> Write1Byte b v = Inr b' \<Longrightarrow> emits b [v] b'"
  by (simp add: Write1Byte_def write_val_emits)

lemma Write2Byte_emits:
  assumes "wf_buffer b" and "Write2Byte b val = Inr b'"
  shows "emits b [ucast (drop_bit 8 val), ucast (val AND 0xFF)] b'"
proof -
  from assms(2) obtain b1 where 1: "write_val b (ucast (drop_bit 8 val)) = Inr b1"
    and 2: "write_val b1 (ucast (val AND 0xFF)) = Inr b'"
    by (auto simp: Write2Byte_def bindE_eq_Inr)
  have e1: "emits b [ucast (drop_bit 8 val)] b1"
    by (rule write_val_emits [OF assms(1) 1])
  have e2: "emits b1 [ucast (val AND 0xFF)] b'"
    by (rule write_val_emits [OF emits_wf [OF e1] 2])
  show ?thesis using emits_trans [OF e1 e2] by simp
qed

lemma Write4Byte_emits:
  assumes "wf_buffer b" and "Write4Byte b val = Inr b'"
  shows "emits b (bytes_of_uint32 val) b'"
proof -
  from assms(2) obtain b1 b2 b3 where
    1: "write_val b (ucast (drop_bit 24 val AND 0xFF)) = Inr b1" and
    2: "write_val b1 (ucast (drop_bit 16 val AND 0xFF)) = Inr b2" and
    3: "write_val b2 (ucast (drop_bit 8 val AND 0xFF)) = Inr b3" and
    4: "write_val b3 (ucast (val AND 0xFF)) = Inr b'"
    by (auto simp: Write4Byte_def bindE_eq_Inr)
  note e1 = write_val_emits [OF assms(1) 1]
  note e2 = write_val_emits [OF emits_wf [OF e1] 2]
  note e3 = write_val_emits [OF emits_wf [OF e2] 3]
  note e4 = write_val_emits [OF emits_wf [OF e3] 4]
  show ?thesis
    using emits_trans [OF emits_trans [OF emits_trans [OF e1 e2] e3] e4]
    by (simp add: bytes_of_uint32_def)
qed

lemma emits_pos_le: "emits b bs b' \<Longrightarrow> unat (Pos b') \<le> 512"
  by (simp add: emits_def)

lemma write_label_bytes_emits:
  "wf_buffer b \<Longrightarrow> unat (Pos b) \<le> 512 \<Longrightarrow> write_label_bytes b bs = Inr b' \<Longrightarrow> emits b bs b'"
proof (induction bs arbitrary: b)
  case Nil
  then show ?case by (simp add: emits_Nil)
next
  case (Cons x xs)
  from Cons.prems(3) obtain b1 where 1: "Write1Byte b x = Inr b1"
    and 2: "write_label_bytes b1 xs = Inr b'"
    by (auto simp: bindE_eq_Inr)
  note e1 = Write1Byte_emits [OF Cons.prems(1) 1]
  note e2 = Cons.IH [OF emits_wf [OF e1] emits_pos_le [OF e1] 2]
  show ?case using emits_trans [OF e1 e2] by simp
qed

lemma WriteQName_labels_emits:
  "wf_buffer b \<Longrightarrow> unat (Pos b) \<le> 512 \<Longrightarrow> WriteQName_labels b ls = Inr b' \<Longrightarrow>
     emits b (concat (map (\<lambda>label. of_nat (length label) # bytes_of_string label @ [0]) ls)) b'"
proof (induction ls arbitrary: b)
  case Nil
  then show ?case by (simp add: emits_Nil)
next
  case (Cons l ls)
  from Cons.prems(3) obtain b1 b2 b3 where
    1: "Write1Byte b (of_nat (length l)) = Inr b1" and
    2: "write_label_bytes b1 (bytes_of_string l) = Inr b2" and
    3: "Write1Byte b2 0 = Inr b3" and
    4: "WriteQName_labels b3 ls = Inr b'"
    by (auto simp: bindE_eq_Inr split: if_splits)
  note e1 = Write1Byte_emits [OF Cons.prems(1) 1]
  note e2 = write_label_bytes_emits [OF emits_wf [OF e1] emits_pos_le [OF e1] 2]
  note e3 = Write1Byte_emits [OF emits_wf [OF e2] 3]
  note e4 = Cons.IH [OF emits_wf [OF e3] emits_pos_le [OF e3] 4]
  show ?case
    using emits_trans [OF emits_trans [OF emits_trans [OF e1 e2] e3] e4] by simp
qed

lemma split_dot_not_Nil: "split_dot s \<noteq> []"
  by (induction s) (auto split: list.splits)

lemma WriteQName_emits:
  assumes "wf_buffer b" and "WriteQName b qname = Inr b'"
  shows "emits b (qname_wire qname) b'"
proof -
  obtain l ls where ls: "split_dot qname = l # ls"
    using split_dot_not_Nil [of qname] by (cases "split_dot qname") auto
  from assms(2) obtain b1 where "write_val b (of_nat (length l)) = Inr b1"
    by (auto simp: WriteQName_def ls Write1Byte_def bindE_eq_Inr split: if_splits)
  then have "unat (Pos b) \<le> 512"
    by (auto simp: write_val_def word_le_nat_alt split: if_splits)
  with assms show ?thesis
    by (simp add: WriteQName_def qname_wire_def WriteQName_labels_emits)
qed

lemma be16: "256 * unat (ucast (drop_bit 8 w) :: byte) + unat (ucast (w AND 0xFF) :: byte) = unat (w::uint16)"
proof -
  have ff: "(0xFF::uint16) = mask 8" by (simp add: mask_eq_exp_minus_1)
  have lo: "unat (ucast (w AND 0xFF) :: byte) = unat w mod 256"
    unfolding ff by (simp add: unsigned_ucast_eq unsigned_take_bit_eq take_bit_eq_mod unat_mod flip: take_bit_eq_mask)
  have "unat w < 65536" by (rule unat_uint16_less)
  then have "unat w div 256 < 256" by simp
  then have hi: "unat (ucast (drop_bit 8 w) :: byte) = unat w div 256"
    by (simp add: unsigned_ucast_eq unat_drop_bit_eq drop_bit_eq_div take_bit_nat_eq_self unat_div)
  show ?thesis by (simp add: lo hi)
qed

lemma Set2Bytes_nth:
  assumes "Set2Bytes b pos val = Inr b'" and "length (Buf b) = 512"
  shows "unat pos + 1 < 512 \<and> Pos b' = Pos b \<and>
         256 * unat (Buf b' ! unat pos) + unat (Buf b' ! (unat pos + 1)) = unat val"
proof -
  from assms(1) obtain b1 where
    1: "Set b pos (ucast (drop_bit 8 val)) = Inr b1" and
    2: "Set b1 (pos + 1) (ucast (val AND 0xFF)) = Inr b'"
    by (auto simp: Set2Bytes_def bindE_eq_Inr)
  from 1 have p: "unat pos < 512"
    and b1: "b1 = b\<lparr>Buf := (Buf b)[unat pos := ucast (drop_bit 8 val)]\<rparr>"
    by (auto simp: Set_def split: if_splits)
  from p have p1: "unat (pos + 1) = unat pos + 1"
    by (simp add: unat_word_ariths)
  from 2 p1 have q: "unat pos + 1 < 512"
    and b': "b' = b1\<lparr>Buf := (Buf b1)[unat pos + 1 := ucast (val AND 0xFF)]\<rparr>"
    by (auto simp: Set_def split: if_splits)
  have hi: "Buf b' ! unat pos = ucast (drop_bit 8 val)"
    using p assms(2) by (simp add: b' b1)
  have lo: "Buf b' ! (unat pos + 1) = ucast (val AND 0xFF)"
    using q assms(2) by (simp add: b' b1)
  have "Pos b' = Pos b"
    by (simp add: b' b1)
  then show ?thesis
    using q hi lo be16 [of val] by simp
qed

text \<open>
  The converse: a write succeeds whenever what it writes fits below 512, and a
  name is written whenever moreover its labels fit.
\<close>

lemma emits_unique: "emits b bs b1 \<Longrightarrow> emits b bs b2 \<Longrightarrow> b1 = b2"
  by (cases b1, cases b2) (auto simp: emits_def word_unat_eq_iff)

lemma write_label_bytes_fits:
  "wf_buffer b \<Longrightarrow> unat (Pos b) + length bs \<le> 512 \<Longrightarrow>
     \<exists>b'. write_label_bytes b bs = Inr b' \<and> emits b bs b'"
proof (induction bs arbitrary: b)
  case Nil
  then show ?case by (simp add: emits_Nil)
next
  case (Cons x xs)
  from Cons.prems(2) have "\<not> 512 \<le> Pos b"
    by (simp add: word_le_nat_alt)
  then obtain b1 where 1: "Write1Byte b x = Inr b1"
    by (simp add: Write1Byte_def write_val_def)
  note e1 = Write1Byte_emits [OF Cons.prems(1) 1]
  from e1 Cons.prems(2) have fit: "unat (Pos b1) + length xs \<le> 512"
    by (simp add: emits_def)
  from Cons.IH [OF emits_wf [OF e1] fit] obtain b' where
    2: "write_label_bytes b1 xs = Inr b'" and e2: "emits b1 xs b'"
    by blast
  from emits_trans [OF e1 e2] have "emits b (x # xs) b'" by simp
  with 1 2 show ?case by simp
qed

lemma bindE_Inr_id: "bindE m Inr = m"
  by (cases m) simp_all

lemma Write2Byte_as_bytes: "Write2Byte b val = write_label_bytes b (bytes_of_uint16 val)"
  by (simp add: Write2Byte_def bytes_of_uint16_def Write1Byte_def bindE_Inr_id)

lemma Write4Byte_as_bytes: "Write4Byte b val = write_label_bytes b (bytes_of_uint32 val)"
  by (simp add: Write4Byte_def bytes_of_uint32_def Write1Byte_def bindE_Inr_id)

lemma Write2Byte_fits:
  "wf_buffer b \<Longrightarrow> unat (Pos b) + 2 \<le> 512 \<Longrightarrow>
     \<exists>b'. Write2Byte b val = Inr b' \<and> emits b (bytes_of_uint16 val) b'"
  using write_label_bytes_fits [of b "bytes_of_uint16 val"]
  by (simp add: Write2Byte_as_bytes) (simp add: bytes_of_uint16_def)

lemma Write4Byte_fits:
  "wf_buffer b \<Longrightarrow> unat (Pos b) + 4 \<le> 512 \<Longrightarrow>
     \<exists>b'. Write4Byte b val = Inr b' \<and> emits b (bytes_of_uint32 val) b'"
  using write_label_bytes_fits [of b "bytes_of_uint32 val"]
  by (simp add: Write4Byte_as_bytes) (simp add: bytes_of_uint32_def)

lemma WriteQName_labels_fits:
  "wf_buffer b \<Longrightarrow> list_all (\<lambda>label. length label \<le> 63) ls \<Longrightarrow>
   unat (Pos b) + length (concat (map (\<lambda>label. of_nat (length label) # bytes_of_string label @ [0]) ls))
     \<le> 512 \<Longrightarrow>
     \<exists>b'. WriteQName_labels b ls = Inr b' \<and>
          emits b (concat (map (\<lambda>label. of_nat (length label) # bytes_of_string label @ [0]) ls)) b'"
proof (induction ls arbitrary: b)
  case Nil
  then show ?case by (simp add: emits_Nil)
next
  case (Cons l ls)
  let ?enc = "\<lambda>label. (of_nat (length label) :: byte) # bytes_of_string label @ [0]"
  from Cons.prems(2) have l63: "\<not> 63 < length l" and rest: "list_all (\<lambda>label. length label \<le> 63) ls"
    by simp_all
  have lenl: "length (bytes_of_string l) = length l"
    by (simp add: bytes_of_string_def)
  from Cons.prems(3) have fit: "unat (Pos b) + (1 + length l + 1 + length (concat (map ?enc ls))) \<le> 512"
    by (simp add: lenl)
  from write_label_bytes_fits [OF Cons.prems(1), of "[of_nat (length l)]"] fit
  obtain b1 where 1: "Write1Byte b (of_nat (length l)) = Inr b1"
    and e1: "emits b [of_nat (length l)] b1"
    by (auto simp: bindE_eq_Inr)
  from e1 fit have f1: "unat (Pos b1) + length (bytes_of_string l) \<le> 512"
    by (simp add: emits_def lenl)
  from write_label_bytes_fits [OF emits_wf [OF e1] f1]
  obtain b2 where 2: "write_label_bytes b1 (bytes_of_string l) = Inr b2"
    and e2: "emits b1 (bytes_of_string l) b2"
    by blast
  from e1 e2 fit have f2: "unat (Pos b2) + length [0::byte] \<le> 512"
    by (simp add: emits_def lenl)
  from write_label_bytes_fits [OF emits_wf [OF e2] f2]
  obtain b3 where 3: "Write1Byte b2 0 = Inr b3" and e3: "emits b2 [0] b3"
    by (auto simp: bindE_eq_Inr)
  from e1 e2 e3 fit have f3: "unat (Pos b3) + length (concat (map ?enc ls)) \<le> 512"
    by (simp add: emits_def lenl)
  from Cons.IH [OF emits_wf [OF e3] rest f3]
  obtain b' where 4: "WriteQName_labels b3 ls = Inr b'"
    and e4: "emits b3 (concat (map ?enc ls)) b'"
    by blast
  from emits_trans [OF emits_trans [OF emits_trans [OF e1 e2] e3] e4]
  have "emits b (concat (map ?enc (l # ls))) b'" by simp
  with l63 1 2 3 4 show ?case by simp
qed

lemma WriteQName_labels_Inr_fit:
  "WriteQName_labels b ls = Inr b' \<Longrightarrow> list_all (\<lambda>label. length label \<le> 63) ls"
proof (induction ls arbitrary: b)
  case Nil
  show ?case by simp
next
  case (Cons l ls)
  then show ?case
    by (auto simp: bindE_eq_Inr split: if_splits)
qed

lemma WriteQName_iff:
  assumes "wf_buffer b"
  shows "WriteQName b qname = Inr b' \<longleftrightarrow> labels_fit qname \<and> emits b (qname_wire qname) b'"
proof
  assume ok: "WriteQName b qname = Inr b'"
  then have "labels_fit qname"
    unfolding WriteQName_def labels_fit_def by (rule WriteQName_labels_Inr_fit)
  with WriteQName_emits [OF assms ok] show "labels_fit qname \<and> emits b (qname_wire qname) b'"
    by simp
next
  assume r: "labels_fit qname \<and> emits b (qname_wire qname) b'"
  then have fit: "unat (Pos b) + length (qname_wire qname) \<le> 512"
    by (simp add: emits_def)
  from r have lf: "list_all (\<lambda>label. length label \<le> 63) (split_dot qname)"
    by (simp add: labels_fit_def)
  from WriteQName_labels_fits [OF assms lf] fit
  obtain b'' where w: "WriteQName b qname = Inr b''" and e: "emits b (qname_wire qname) b''"
    by (auto simp: WriteQName_def qname_wire_def)
  from emits_unique [OF e] r have "b'' = b'" by simp
  with w show "WriteQName b qname = Inr b'" by simp
qed

lemma Set2Bytes_patch:
  assumes e: "emits b (xs @ [u, v] @ ys) b6"
    and p: "unat pos = unat (Pos b) + length xs"
  shows "\<exists>b'. Set2Bytes b6 pos w = Inr b' \<and> emits b (xs @ bytes_of_uint16 w @ ys) b' \<and>
           Pos b' = Pos b6 \<and>
           Buf b' = (Buf b6)[unat pos := ucast (drop_bit 8 w), unat pos + 1 := ucast (w AND 0xFF)]"
proof -
  let ?p = "unat (Pos b)"
  from e have len: "length (Buf b) = 512"
    and fit: "?p + (length xs + (2 + length ys)) \<le> 512"
    and buf: "Buf b6 = take ?p (Buf b) @ xs @ [u, v] @ ys
                 @ drop (?p + (length xs + (2 + length ys))) (Buf b)"
    and pos6: "unat (Pos b6) = ?p + (length xs + (2 + length ys))"
    by (simp_all add: emits_def add.assoc)
  have k: "unat pos < 512" and k1: "unat pos + 1 < 512"
    using fit p by simp_all
  have u1: "unat (pos + 1) = unat pos + 1"
    using k by (simp add: unat_word_ariths)
  let ?b' = "b6\<lparr>Buf := (Buf b6)[unat pos := ucast (drop_bit 8 w),
                               unat pos + 1 := ucast (w AND 0xFF)]\<rparr>"
  have s: "Set2Bytes b6 pos w = Inr ?b'"
    using k k1 by (simp add: Set2Bytes_def Set_def u1)
  have lt: "length (take ?p (Buf b)) = ?p"
    using len fit by simp
  have upd: "(Buf b6)[unat pos := ucast (drop_bit 8 w), unat pos + 1 := ucast (w AND 0xFF)]
               = take ?p (Buf b) @ xs @ [ucast (drop_bit 8 w), ucast (w AND 0xFF)] @ ys
                 @ drop (?p + (length xs + (2 + length ys))) (Buf b)"
    unfolding buf p using lt by (simp add: list_update_append)
  have B: "Buf ?b' = (Buf b6)[unat pos := ucast (drop_bit 8 w),
                              unat pos + 1 := ucast (w AND 0xFF)]"
    by simp
  have "emits b (xs @ bytes_of_uint16 w @ ys) ?b'"
    unfolding emits_def
  proof (intro conjI)
    show "length (Buf b) = 512" by (rule len)
    show "unat (Pos b) + length (xs @ bytes_of_uint16 w @ ys) \<le> 512"
      using fit by (simp add: bytes_of_uint16_def)
    show "Buf ?b' = take ?p (Buf b) @ (xs @ bytes_of_uint16 w @ ys)
            @ drop (?p + length (xs @ bytes_of_uint16 w @ ys)) (Buf b)"
      unfolding B upd by (simp add: bytes_of_uint16_def add.assoc)
    show "unat (Pos ?b') = ?p + length (xs @ bytes_of_uint16 w @ ys)"
      using pos6 by (simp add: bytes_of_uint16_def)
  qed
  moreover have "Pos ?b' = Pos b6" by simp
  ultimately show ?thesis
    using s B by blast
qed


lemma length_bytes_of_uint16 [simp]: "length (bytes_of_uint16 w) = 2"
  by (simp add: bytes_of_uint16_def)

lemma length_bytes_of_uint32 [simp]: "length (bytes_of_uint32 w) = 4"
  by (simp add: bytes_of_uint32_def)

lemma Write2Byte_emits16:
  "wf_buffer b \<Longrightarrow> Write2Byte b val = Inr b' \<Longrightarrow> emits b (bytes_of_uint16 val) b'"
  using Write2Byte_emits [of b val b'] by (simp add: bytes_of_uint16_def)

lemma WriteQName_fits:
  assumes "wf_buffer b" and "labels_fit qname"
    and "unat (Pos b) + length (qname_wire qname) \<le> 512"
  shows "\<exists>b'. WriteQName b qname = Inr b' \<and> emits b (qname_wire qname) b'"
  using WriteQName_labels_fits [OF assms(1), of "split_dot qname"] assms(2,3)
  by (simp add: WriteQName_def qname_wire_def labels_fit_def)

text \<open>What a successful run of the case \<^verbatim>\<open>NS\<close> or \<^verbatim>\<open>CNAME\<close> has done.\<close>

lemma Write_case_host_forward:
  assumes wf: "wf_buffer buffer"
    and ok: "Write_case_host (Type d) d buffer = Inr b'"
  shows "\<exists>b5 b6.
           labels_fit (Domain d) \<and> labels_fit (Host d) \<and>
           emits buffer (host_record_wire d) b' \<and>
           WriteQName b5 (Host d) = Inr b6 \<and> emits b5 (qname_wire (Host d)) b6 \<and>
           unat (Pos b5) = unat (Pos buffer) + length (qname_wire (Domain d)) + 10 \<and>
           Pos b6 - Pos b5 = of_nat (length (qname_wire (Host d))) \<and>
           Pos b' = Pos b6 \<and>
           Buf b' = (Buf b6)
             [unat (Pos b5) - 2 := ucast (drop_bit 8 (Pos b6 - Pos b5)),
              unat (Pos b5) - 2 + 1 := ucast ((Pos b6 - Pos b5) AND 0xFF)]"
proof -
  let ?dom = "qname_wire (Domain d)" and ?host = "qname_wire (Host d)"
  let ?pre = "?dom @ bytes_of_uint16 (RecordTypeToNum (Type d)) @ bytes_of_uint16 1
                @ bytes_of_uint32 (TTL d)"
  from ok obtain b1 b2 b3 b4 b5 b6 where
    1: "WriteQName buffer (Domain d) = Inr b1" and
    2: "Write2Byte b1 (RecordTypeToNum (Type d)) = Inr b2" and
    3: "Write2Byte b2 1 = Inr b3" and
    4: "Write4Byte b3 (TTL d) = Inr b4" and
    5: "Write2Byte b4 0 = Inr b5" and
    6: "WriteQName b5 (Host d) = Inr b6" and
    7: "Set2Bytes b6 (Pos b4) (Pos b6 - (Pos b4 + 2)) = Inr b'"
    by (auto simp: Write_case_host_def Let_def bindE_eq_Inr)
  note e1 = WriteQName_emits [OF wf 1]
  note e2 = Write2Byte_emits16 [OF emits_wf [OF e1] 2]
  note e3 = Write2Byte_emits16 [OF emits_wf [OF e2] 3]
  note e4 = Write4Byte_emits [OF emits_wf [OF e3] 4]
  note e5 = Write2Byte_emits [OF emits_wf [OF e4] 5]
  note e6 = WriteQName_emits [OF emits_wf [OF e5] 6]
  have lf: "labels_fit (Domain d)" "labels_fit (Host d)"
    using 1 6 WriteQName_iff [OF wf] WriteQName_iff [OF emits_wf [OF e5]] by blast+
  have pre: "emits buffer ?pre b4"
    using emits_trans [OF emits_trans [OF emits_trans [OF e1 e2] e3] e4] by simp
  have p4: "unat (Pos b4) = unat (Pos buffer) + length ?pre"
    using pre by (simp add: emits_def)
  have e5': "emits b4 [0, 0] b5"
    using e5 by simp
  have all6: "emits buffer (?pre @ [0, 0] @ ?host) b6"
    using emits_trans [OF emits_trans [OF pre e5'] e6] by simp
  have p5: "unat (Pos b5) = unat (Pos b4) + 2"
    using e5' by (simp add: emits_def)
  have p6: "unat (Pos b6) = unat (Pos b5) + length ?host"
    and le6: "unat (Pos b6) \<le> 512"
    using e6 by (simp_all add: emits_def)
  have "unat (Pos b4 + 2) = unat (Pos b5)"
    using p5 le6 p6 by (simp add: unat_word_ariths)
  then have eq5: "Pos b4 + 2 = Pos b5"
    by (simp add: word_unat_eq_iff)
  have "Pos b5 \<le> Pos b6"
    using p6 by (simp add: word_le_nat_alt)
  then have "unat (Pos b6 - Pos b5) = length ?host"
    using p6 by (simp add: unat_sub)
  moreover have "unat (of_nat (length ?host) :: uint16) = length ?host"
    using p6 le6 by (simp add: unat_of_nat)
  ultimately have size: "Pos b6 - Pos b5 = of_nat (length ?host)"
    by (simp add: word_unat_eq_iff)
  from Set2Bytes_patch [OF all6 p4, of "Pos b6 - (Pos b4 + 2)"] 7
  have out: "emits buffer (?pre @ bytes_of_uint16 (Pos b6 - (Pos b4 + 2)) @ ?host) b'"
    and pos: "Pos b' = Pos b6"
    and buf: "Buf b' = (Buf b6)
                [unat (Pos b4) := ucast (drop_bit 8 (Pos b6 - (Pos b4 + 2))),
                 unat (Pos b4) + 1 := ucast ((Pos b6 - (Pos b4 + 2)) AND 0xFF)]"
    by auto
  have wire: "emits buffer (host_record_wire d) b'"
    using out by (simp add: eq5 size host_record_wire_def)
  have ph: "unat (Pos b5) - 2 = unat (Pos b4)"
    using p5 by simp
  have p5': "unat (Pos b5) = unat (Pos buffer) + length ?dom + 10"
    using p5 p4 by simp
  have buf': "Buf b' = (Buf b6)
             [unat (Pos b5) - 2 := ucast (drop_bit 8 (Pos b6 - Pos b5)),
              unat (Pos b5) - 2 + 1 := ucast ((Pos b6 - Pos b5) AND 0xFF)]"
    unfolding ph using buf by (simp only: eq5)
  from lf wire 6 e6 p5' size pos buf' show ?thesis
    by blast
qed

text \<open>The case succeeds whenever the labels and the whole record fit.\<close>

lemma Write_case_host_succeeds:
  assumes wf: "wf_buffer buffer"
    and lf: "labels_fit (Domain d)" "labels_fit (Host d)"
    and fit: "unat (Pos buffer) + length (host_record_wire d) \<le> 512"
  shows "\<exists>b'. Write_case_host (Type d) d buffer = Inr b'"
proof -
  let ?dom = "qname_wire (Domain d)" and ?host = "qname_wire (Host d)"
  let ?pre = "?dom @ bytes_of_uint16 (RecordTypeToNum (Type d)) @ bytes_of_uint16 1
                @ bytes_of_uint32 (TTL d)"
  let ?p = "unat (Pos buffer)"
  from fit have f: "?p + (length ?dom + 10 + length ?host) \<le> 512"
    by (simp add: host_record_wire_def)
  from WriteQName_fits [OF wf lf(1)] f obtain b1 where
    1: "WriteQName buffer (Domain d) = Inr b1" and e1: "emits buffer ?dom b1"
    by auto
  have p1: "unat (Pos b1) = ?p + length ?dom"
    using e1 by (simp add: emits_def)
  from Write2Byte_fits [OF emits_wf [OF e1], of "RecordTypeToNum (Type d)"] p1 f obtain b2 where
    2: "Write2Byte b1 (RecordTypeToNum (Type d)) = Inr b2"
    and e2: "emits b1 (bytes_of_uint16 (RecordTypeToNum (Type d))) b2"
    by auto
  have p2: "unat (Pos b2) = ?p + length ?dom + 2"
    using e2 p1 by (simp add: emits_def)
  from Write2Byte_fits [OF emits_wf [OF e2], of 1] p2 f obtain b3 where
    3: "Write2Byte b2 1 = Inr b3" and e3: "emits b2 (bytes_of_uint16 1) b3"
    by auto
  have p3: "unat (Pos b3) = ?p + length ?dom + 4"
    using e3 p2 by (simp add: emits_def)
  from Write4Byte_fits [OF emits_wf [OF e3], of "TTL d"] p3 f obtain b4 where
    4: "Write4Byte b3 (TTL d) = Inr b4" and e4: "emits b3 (bytes_of_uint32 (TTL d)) b4"
    by auto
  have p4: "unat (Pos b4) = ?p + length ?dom + 8"
    using e4 p3 by (simp add: emits_def)
  from Write2Byte_fits [OF emits_wf [OF e4], of 0] p4 f obtain b5 where
    5: "Write2Byte b4 0 = Inr b5" and e5: "emits b4 (bytes_of_uint16 0) b5"
    by auto
  have p5: "unat (Pos b5) = ?p + length ?dom + 10"
    using e5 p4 by (simp add: emits_def)
  from WriteQName_fits [OF emits_wf [OF e5] lf(2)] p5 f obtain b6 where
    6: "WriteQName b5 (Host d) = Inr b6" and e6: "emits b5 ?host b6"
    by auto
  have pre: "emits buffer ?pre b4"
    using emits_trans [OF emits_trans [OF emits_trans [OF e1 e2] e3] e4] by simp
  have e5': "emits b4 [0, 0] b5"
    using e5 by (simp add: bytes_of_uint16_def)
  have all6: "emits buffer (?pre @ [0, 0] @ ?host) b6"
    using emits_trans [OF emits_trans [OF pre e5'] e6] by simp
  have p4': "unat (Pos b4) = ?p + length ?pre"
    using p4 by simp
  from Set2Bytes_patch [OF all6 p4', of "Pos b6 - (Pos b4 + 2)"] obtain b' where
    7: "Set2Bytes b6 (Pos b4) (Pos b6 - (Pos b4 + 2)) = Inr b'"
    by blast
  show ?thesis
    by (simp add: Write_case_host_def Let_def 1 2 3 4 5 6 7)
qed

text \<open>
  For every header, \<^verbatim>\<open>DnsHeader.Write\<close> stores 11 bytes, the second flag byte
  not among them; for every question, \<^verbatim>\<open>DnsQuestion.Write\<close> stores the name,
  the ordinal of the type and the class 1.
\<close>

lemma DnsHeader_Write_emits:
  assumes "wf_buffer buffer" and "DnsHeader_Write h buffer = Inr b'"
  shows "emits buffer
           [ucast (drop_bit 8 (ID h)), ucast (ID h AND 0xFF), flag_byte1 h,
            ucast (drop_bit 8 (Questions h)), ucast (Questions h AND 0xFF),
            ucast (drop_bit 8 (Answers h)), ucast (Answers h AND 0xFF),
            ucast (drop_bit 8 (AuthoritativeEntries h)), ucast (AuthoritativeEntries h AND 0xFF),
            ucast (drop_bit 8 (ResourceEntries h)), ucast (ResourceEntries h AND 0xFF)] b'"
proof -
  from assms(2) obtain b1 b2 b3 b4 b5 where
    1: "Write2Byte buffer (ID h) = Inr b1" and
    2: "Write1Byte b1 (flag_byte1 h) = Inr b2" and
    3: "Write2Byte b2 (Questions h) = Inr b3" and
    4: "Write2Byte b3 (Answers h) = Inr b4" and
    5: "Write2Byte b4 (AuthoritativeEntries h) = Inr b5" and
    6: "Write2Byte b5 (ResourceEntries h) = Inr b'"
    by (auto simp: DnsHeader_Write_def Let_def bindE_eq_Inr)
  note e1 = Write2Byte_emits [OF assms(1) 1]
  note e2 = Write1Byte_emits [OF emits_wf [OF e1] 2]
  note e3 = Write2Byte_emits [OF emits_wf [OF e2] 3]
  note e4 = Write2Byte_emits [OF emits_wf [OF e3] 4]
  note e5 = Write2Byte_emits [OF emits_wf [OF e4] 5]
  note e6 = Write2Byte_emits [OF emits_wf [OF e5] 6]
  show ?thesis
    using emits_trans [OF emits_trans [OF emits_trans [OF emits_trans
            [OF emits_trans [OF e1 e2] e3] e4] e5] e6]
    by simp
qed

lemma DnsQuestion_Write_emits:
  assumes "wf_buffer buffer" and "DnsQuestion_Write dq buffer = Inr b'"
  shows "emits buffer
           (qname_wire (Name dq)
              @ [0, of_nat (RecordType_iota (QuestionType dq)), 0, 1]) b'"
proof -
  from assms(2) obtain b1 b2 where
    1: "WriteQName buffer (Name dq) = Inr b1" and
    2: "Write2Byte b1 (of_nat (RecordType_iota (QuestionType dq))) = Inr b2" and
    3: "Write2Byte b2 1 = Inr b'"
    by (auto simp: DnsQuestion_Write_def bindE_eq_Inr)
  note e1 = WriteQName_emits [OF assms(1) 1]
  note e2 = Write2Byte_emits [OF emits_wf [OF e1] 2]
  note e3 = Write2Byte_emits [OF emits_wf [OF e2] 3]
  have hi: "(ucast (drop_bit 8 (of_nat (RecordType_iota (QuestionType dq)) :: uint16)) :: byte) = 0"
    by (cases "QuestionType dq") simp_all
  have lo: "(ucast ((of_nat (RecordType_iota (QuestionType dq)) :: uint16) AND 0xFF) :: byte)
              = of_nat (RecordType_iota (QuestionType dq))"
    by (cases "QuestionType dq") simp_all
  show ?thesis
    using emits_trans [OF emits_trans [OF e1 e2] e3]
    by (simp add: hi lo)
qed

section \<open>The header\<close>

text \<open>
  C2. \<^verbatim>\<open>DnsHeader.Write\<close> builds the second flag byte and never writes it. For
  the header of an NXDOMAIN response (id 6666, RD and RA set) the second flag
  byte is \<open>0x83\<close>, but the header written is 11 bytes long, \<open>1A 0A 01\<close> followed
  by the eight count bytes, and \<^verbatim>\<open>DnsHeader.Read\<close> of what was written gives
  back neither RA nor the response code. (Lemma \<open>DnsHeader_Write_emits\<close>: the
  11 bytes, for every header.)
\<close>

theorem DnsHeader_Write_omits_second_flag_byte:
  "flag_byte2 (NewDnsHeader\<lparr>ID := 6666, RecursionDesired := True, Rescode := NXDOMAIN,
                            RecursionAvailable := True\<rparr>) = 0x83 \<and>
   map_sum id (\<lambda>b. (take 12 (Buf b), Pos b))
     (DnsHeader_Write
        (NewDnsHeader\<lparr>ID := 6666, RecursionDesired := True, Rescode := NXDOMAIN,
                       RecursionAvailable := True\<rparr>) NewBytePacketBuffer)
     = Inr ([0x1A, 0x0A, 0x01, 0, 0, 0, 0, 0, 0, 0, 0, 0], 11) \<and>
   map_sum id fst
     (bindE (DnsHeader_Write
               (NewDnsHeader\<lparr>ID := 6666, RecursionDesired := True, Rescode := NXDOMAIN,
                              RecursionAvailable := True\<rparr>) NewBytePacketBuffer)
        (\<lambda>b. bindE (Seek b 0) DnsHeader_Read))
     = Inr (NewDnsHeader\<lparr>ID := 6666, RecursionDesired := True\<rparr>)"
  by code_simp

section \<open>Names, questions and records on the wire\<close>

text \<open>
  C3. \<^verbatim>\<open>WriteQName\<close> writes the zero byte inside its loop over the labels, so
  a name of two labels gets two of them: \<open>google.com\<close> is written as
  \<open>[6]google[0][3]com[0]\<close>, 13 bytes, where the claim has the 12 bytes
  \<open>[6]google[3]com[0]\<close>. (Lemma \<open>WriteQName_emits\<close>: the bytes written, for
  every name that is written without error.)
\<close>

theorem WriteQName_zero_after_every_label:
  "map_sum id (\<lambda>b. (take 13 (Buf b), Pos b)) (WriteQName NewBytePacketBuffer ''google.com'')
     = Inr ([6] @ bytes_of_string ''google'' @ [0] @ [3] @ bytes_of_string ''com'' @ [0], 13)"
  by code_simp

text \<open>
  C6. \<^verbatim>\<open>DnsQuestion.Write\<close> writes \<^verbatim>\<open>uint16(dq.Type)\<close>, the position of the
  type among the constants, not \<^verbatim>\<open>RecordTypeToNum\<close> of it: after the 13 bytes
  of the name \<open>google.com\<close>, a CNAME question gets the type field 3, an MX
  question 4 and an AAAA question 5, where the wire codes are 5, 15 and 28.
  (Lemma \<open>DnsQuestion_Write_emits\<close>: the bytes written, for every question.)
\<close>

theorem DnsQuestion_Write_type_is_ordinal:
  "map_sum id (\<lambda>b. (take 4 (drop 13 (Buf b)), Pos b))
     (DnsQuestion_Write (NewDnsQuestion ''google.com'' CNAME) NewBytePacketBuffer)
     = Inr ([0, 3, 0, 1], 17) \<and>
   map_sum id (\<lambda>b. (take 4 (drop 13 (Buf b)), Pos b))
     (DnsQuestion_Write (NewDnsQuestion ''google.com'' MX) NewBytePacketBuffer)
     = Inr ([0, 4, 0, 1], 17) \<and>
   map_sum id (\<lambda>b. (take 4 (drop 13 (Buf b)), Pos b))
     (DnsQuestion_Write (NewDnsQuestion ''google.com'' AAAA) NewBytePacketBuffer)
     = Inr ([0, 5, 0, 1], 17) \<and>
   RecordTypeToNum CNAME = 5 \<and> RecordTypeToNum MX = 15 \<and> RecordTypeToNum AAAA = 28"
  by code_simp

text \<open>
  C7, as stated: the count returned for a record of unknown type is the size of
  its name, type, class and TTL fields. It is not: for the domain \<open>a\<close> these are
  11 bytes and the count is 0.
\<close>

theorem unknown_count_counterexample:
  "\<not> unknown_count_as_specified (NewUnknownDnsRecord ''a'' 99 0 300) NewBytePacketBuffer"
  by code_simp

text \<open>
  C7, amended: \<^verbatim>\<open>DnsRecord.Write\<close> on a record of unknown type writes nothing
  at all, neither a body nor the name, type, class and TTL (each known type
  writes these inside its own case), leaves the buffer and its cursor as they
  were, and returns the count 0.
\<close>

theorem DnsRecord_Write_unknown:
  "Type d = UNKNOWN \<Longrightarrow> DnsRecord_Write d buffer = Inr (0, buffer)"
  by (simp add: DnsRecord_Write_def)

theorem DnsRecord_Write_unknown_witness:
  "Type (NewUnknownDnsRecord ''example.com'' 99 3 300) = UNKNOWN \<and>
   DnsRecord_Write (NewUnknownDnsRecord ''example.com'' 99 3 300) NewBytePacketBuffer
     = Inr (0, NewBytePacketBuffer)"
  using DnsRecord_Write_unknown
          [of "NewUnknownDnsRecord ''example.com'' 99 3 300" NewBytePacketBuffer]
  by (simp add: NewUnknownDnsRecord_def)

text \<open>
  C9. \<^verbatim>\<open>DnsRecord.Write\<close> on an NS or a CNAME record succeeds exactly when the
  labels of both names have at most 63 bytes and the record fits in the buffer
  (in particular it does succeed then), and what it leaves in the buffer is
  exactly \<open>host_record_wire\<close>: after name, type, class and TTL come two bytes
  holding, big-endian, the number of bytes that \<^verbatim>\<open>WriteQName\<close> stored for the
  host name, and then those bytes. The buffer returned is the one
  \<^verbatim>\<open>WriteQName\<close> returned for the host name, with these two bytes replaced.
  The number is \<open>length (qname_wire host)\<close> for every host name, counting the
  zero byte that \<^verbatim>\<open>WriteQName\<close> writes after every label: 19 for
  \<open>ns1.example.com\<close>, 3 for \<open>a\<close>.
\<close>

theorem NS_CNAME_length_backpatch:
  assumes wf: "wf_buffer buffer"
    and kind: "Type d = NS \<or> Type d = CNAME"
  shows "(DnsRecord_Write d buffer = Inr (n, b') \<longleftrightarrow>
            labels_fit (Domain d) \<and> labels_fit (Host d) \<and>
            emits buffer (host_record_wire d) b' \<and>
            n = of_nat (length (host_record_wire d))) \<and>
         (DnsRecord_Write d buffer = Inr (n, b') \<longrightarrow>
            (\<exists>b5 b6.
               WriteQName b5 (Host d) = Inr b6 \<and> emits b5 (qname_wire (Host d)) b6 \<and>
               unat (Pos b5) = unat (Pos buffer) + length (qname_wire (Domain d)) + 10 \<and>
               unat (Pos b6) - unat (Pos b5) = length (qname_wire (Host d)) \<and>
               Pos b' = Pos b6 \<and>
               Buf b' = (Buf b6)
                 [unat (Pos b5) - 2 := ucast (drop_bit 8 (Pos b6 - Pos b5)),
                  unat (Pos b5) - 2 + 1 := ucast ((Pos b6 - Pos b5) AND 0xFF)] \<and>
               256 * unat (Buf b' ! (unat (Pos b5) - 2)) + unat (Buf b' ! (unat (Pos b5) - 1))
                 = length (qname_wire (Host d)))) \<and>
         (labels_fit (Domain d) \<and> labels_fit (Host d) \<and>
          unat (Pos buffer) + length (host_record_wire d) \<le> 512 \<longrightarrow>
            (\<exists>m b''. DnsRecord_Write d buffer = Inr (m, b'')))"
proof -
  have dispatch: "DnsRecord_Write d buffer
                    = bindE (Write_case_host (Type d) d buffer)
                        (\<lambda>b'. Inr (Pos b' - Pos buffer, b'))"
    using kind by (auto simp: DnsRecord_Write_def Let_def)
  have count: "Pos b'' - Pos buffer = of_nat (length (host_record_wire d))"
    if "emits buffer (host_record_wire d) b''" for b''
  proof -
    from that have u: "unat (Pos b'') = unat (Pos buffer) + length (host_record_wire d)"
      and le: "unat (Pos buffer) + length (host_record_wire d) \<le> 512"
      by (simp_all add: emits_def)
    from le have "unat (Pos buffer + of_nat (length (host_record_wire d)))
                    = unat (Pos buffer) + length (host_record_wire d)"
      by (simp add: unat_word_ariths unat_of_nat)
    with u have "Pos b'' = Pos buffer + of_nat (length (host_record_wire d))"
      by (simp add: word_unat_eq_iff)
    then show ?thesis by simp
  qed
  have fwd: "labels_fit (Domain d) \<and> labels_fit (Host d) \<and>
             emits buffer (host_record_wire d) b' \<and>
             n = of_nat (length (host_record_wire d)) \<and>
             (\<exists>b5 b6.
               WriteQName b5 (Host d) = Inr b6 \<and> emits b5 (qname_wire (Host d)) b6 \<and>
               unat (Pos b5) = unat (Pos buffer) + length (qname_wire (Domain d)) + 10 \<and>
               unat (Pos b6) - unat (Pos b5) = length (qname_wire (Host d)) \<and>
               Pos b' = Pos b6 \<and>
               Buf b' = (Buf b6)
                 [unat (Pos b5) - 2 := ucast (drop_bit 8 (Pos b6 - Pos b5)),
                  unat (Pos b5) - 2 + 1 := ucast ((Pos b6 - Pos b5) AND 0xFF)] \<and>
               256 * unat (Buf b' ! (unat (Pos b5) - 2)) + unat (Buf b' ! (unat (Pos b5) - 1))
                 = length (qname_wire (Host d)))"
    if ok: "DnsRecord_Write d buffer = Inr (n, b')"
  proof -
    from ok have c: "Write_case_host (Type d) d buffer = Inr b'"
      and n: "n = Pos b' - Pos buffer"
      by (auto simp: dispatch bindE_eq_Inr)
    from Write_case_host_forward [OF wf c] obtain b5 b6 where
      lf: "labels_fit (Domain d)" "labels_fit (Host d)" and
      wire: "emits buffer (host_record_wire d) b'" and
      6: "WriteQName b5 (Host d) = Inr b6" and
      e6: "emits b5 (qname_wire (Host d)) b6" and
      p5: "unat (Pos b5) = unat (Pos buffer) + length (qname_wire (Domain d)) + 10" and
      size: "Pos b6 - Pos b5 = of_nat (length (qname_wire (Host d)))" and
      pos: "Pos b' = Pos b6" and
      buf: "Buf b' = (Buf b6)
             [unat (Pos b5) - 2 := ucast (drop_bit 8 (Pos b6 - Pos b5)),
              unat (Pos b5) - 2 + 1 := ucast ((Pos b6 - Pos b5) AND 0xFF)]"
      by blast
    from e6 have p6: "unat (Pos b6) - unat (Pos b5) = length (qname_wire (Host d))"
      and le6: "unat (Pos b6) \<le> 512" and len6: "length (Buf b6) = 512"
      and len5: "unat (Pos b5) + length (qname_wire (Host d)) \<le> 512"
      by (auto simp: emits_def dest: emits_wf [unfolded wf_buffer_def])
    have us: "unat (Pos b6 - Pos b5) = length (qname_wire (Host d))"
      using len5 by (simp add: size unat_of_nat)
    have i: "unat (Pos b5) - 2 + 1 < 512" "unat (Pos b5) - 2 + 1 = unat (Pos b5) - 1"
      using p5 len5 by simp_all
    have hi: "Buf b' ! (unat (Pos b5) - 2) = ucast (drop_bit 8 (Pos b6 - Pos b5))"
      unfolding buf using i(1) len6 by simp
    have lo: "Buf b' ! (unat (Pos b5) - 2 + 1) = ucast ((Pos b6 - Pos b5) AND 0xFF)"
      unfolding buf using i(1) len6 by simp
    have field: "256 * unat (Buf b' ! (unat (Pos b5) - 2))
                   + unat (Buf b' ! (unat (Pos b5) - 1)) = length (qname_wire (Host d))"
      using be16 [of "Pos b6 - Pos b5"] hi lo us by (simp only: i(2))
    from lf wire n count [OF wire] 6 e6 p5 p6 pos buf field show ?thesis
      by blast
  qed
  have bwd: "DnsRecord_Write d buffer = Inr (n, b')"
    if r: "labels_fit (Domain d) \<and> labels_fit (Host d) \<and>
           emits buffer (host_record_wire d) b' \<and>
           n = of_nat (length (host_record_wire d))"
  proof -
    from r have fit: "unat (Pos buffer) + length (host_record_wire d) \<le> 512"
      by (simp add: emits_def)
    from Write_case_host_succeeds [OF wf _ _ fit] r obtain b'' where
      c: "Write_case_host (Type d) d buffer = Inr b''"
      by blast
    from Write_case_host_forward [OF wf c] have "emits buffer (host_record_wire d) b''"
      by blast
    with r have "b'' = b'"
      using emits_unique by blast
    with c r count [of b'] show ?thesis
      by (simp add: dispatch)
  qed
  have succ: "\<exists>m b''. DnsRecord_Write d buffer = Inr (m, b'')"
    if f: "labels_fit (Domain d) \<and> labels_fit (Host d) \<and>
           unat (Pos buffer) + length (host_record_wire d) \<le> 512"
  proof -
    from f have lf: "labels_fit (Domain d)" "labels_fit (Host d)"
      and fit: "unat (Pos buffer) + length (host_record_wire d) \<le> 512"
      by simp_all
    from Write_case_host_succeeds [OF wf lf fit] obtain b'' where
      "Write_case_host (Type d) d buffer = Inr b''"
      by blast
    then show ?thesis
      by (simp add: dispatch)
  qed
  from fwd bwd succ show ?thesis
    by blast
qed

theorem NS_CNAME_length_backpatch_witness:
  "wf_buffer NewBytePacketBuffer \<and>
   Type (NewNSDnsRecord ''example.com'' ''ns1.example.com'' 300) = NS \<and>
   labels_fit ''example.com'' \<and> labels_fit ''ns1.example.com'' \<and>
   map_sum id (\<lambda>(n, b). (n, take 2 (drop 22 (Buf b))))
     (DnsRecord_Write (NewNSDnsRecord ''example.com'' ''ns1.example.com'' 300)
        NewBytePacketBuffer) = Inr (43, [0, 19]) \<and>
   length (qname_wire ''ns1.example.com'') = 19 \<and>
   map_sum id (\<lambda>(n, b). (n, take 2 (drop 22 (Buf b))))
     (DnsRecord_Write (NewCNameDnsRecord ''example.com'' ''a'' 300)
        NewBytePacketBuffer) = Inr (27, [0, 3]) \<and>
   length (qname_wire ''a'') = 3"
proof -
  let ?d = "NewNSDnsRecord ''example.com'' ''ns1.example.com'' 300"
  have h1: "wf_buffer NewBytePacketBuffer"
    by (simp add: wf_buffer_def NewBytePacketBuffer_def)
  have h2: "Type ?d = NS \<or> Type ?d = CNAME"
    by (simp add: NewNSDnsRecord_def)
  have "case DnsRecord_Write ?d NewBytePacketBuffer of Inl e \<Rightarrow> False | Inr r \<Rightarrow> True"
    by code_simp
  then obtain n b' where h3: "DnsRecord_Write ?d NewBytePacketBuffer = Inr (n, b')"
    by (auto split: sum.splits)
  note t = NS_CNAME_length_backpatch [OF h1 h2, of n b']
  have c: "labels_fit ''example.com'' \<and> labels_fit ''ns1.example.com'' \<and>
           map_sum id (\<lambda>(n, b). (n, take 2 (drop 22 (Buf b))))
             (DnsRecord_Write ?d NewBytePacketBuffer) = Inr (43, [0, 19]) \<and>
           length (qname_wire ''ns1.example.com'') = 19 \<and>
           map_sum id (\<lambda>(n, b). (n, take 2 (drop 22 (Buf b))))
             (DnsRecord_Write (NewCNameDnsRecord ''example.com'' ''a'' 300)
                NewBytePacketBuffer) = Inr (27, [0, 3]) \<and>
           length (qname_wire ''a'') = 3"
    by code_simp
  from t h1 h3 c show ?thesis
    by (simp add: NewNSDnsRecord_def)
qed

section \<open>Reading names: pointers and the jump limit\<close>

lemma bit_C0_byte: "bit (0xC0::byte) n \<longleftrightarrow> n = 6 \<or> n = 7"
proof -
  have "(0xC0::byte) = push_bit 6 (mask 2)" by (simp add: mask_eq_exp_minus_1)
  then show ?thesis by (simp only: bit_simps) auto
qed

lemma bit_C0_uint16: "bit (0xC0::uint16) n \<longleftrightarrow> n = 6 \<or> n = 7"
proof -
  have "(0xC0::uint16) = push_bit 6 (mask 2)" by (simp add: mask_eq_exp_minus_1)
  then show ?thesis by (simp only: bit_simps) auto
qed

lemma bit_C0_nat: "bit (0xC0::nat) n \<longleftrightarrow> n = 6 \<or> n = 7"
proof -
  have "(0xC0::nat) = push_bit 6 (mask 2)" by (simp add: mask_eq_exp_minus_1)
  then show ?thesis by (simp only: bit_simps) auto
qed

lemma bit_C0_int: "bit (0xC0::int) n \<longleftrightarrow> n = 6 \<or> n = 7"
proof -
  have "(0xC0::int) = push_bit 6 (mask 2)" by (simp add: mask_eq_exp_minus_1)
  then show ?thesis by (simp only: bit_simps) auto
qed

lemma is_pointer_bits:
  assumes "is_pointer l"
  shows "bit l 6" and "bit l 7"
proof -
  from assms have e: "l AND 0xC0 = 0xC0" by (simp add: is_pointer_def)
  have "bit (l AND 0xC0) 6" "bit (l AND 0xC0) 7"
    unfolding e by (simp_all add: bit_C0_byte)
  then show "bit l 6" "bit l 7" by (simp_all add: bit_simps)
qed

lemma pointer_xor:
  assumes "is_pointer l"
  shows "(ucast l XOR 0xC0 :: uint16) = ucast (take_bit 6 l)"
proof (rule bit_word_eqI)
  fix n assume "n < LENGTH(16)"
  have "n < 6 \<or> n = 6 \<or> n = 7 \<or> 8 \<le> n" by arith
  then show "bit (ucast l XOR 0xC0 :: uint16) n = bit (ucast (take_bit 6 l) :: uint16) n"
    using is_pointer_bits [OF assms] bit_C0_uint16 [of n] bit_C0_nat [of n] bit_C0_int [of n]
    by (auto simp add: bit_simps dest: bit_imp_le_length)
qed

lemma push_or_add: "push_bit 8 (x :: uint16) OR ucast (b2::byte) = push_bit 8 x + ucast b2"
  by (rule disjunctive_add_eq_or [symmetric], rule bit_word_eqI)
     (auto simp add: bit_simps dest: bit_imp_le_length)

lemma unat_pointer_sum:
  "unat (push_bit 8 (ucast (take_bit 6 (l::byte)) :: uint16) + ucast (b2::byte))
     = (unat l mod 64) * 256 + unat b2"
proof -
  have a: "unat (take_bit 6 l) = unat l mod 64"
    by (simp add: unsigned_take_bit_eq take_bit_eq_mod unat_mod)
  have a': "unat l mod 64 < 64" by simp
  have b: "unat (push_bit 8 (ucast (take_bit 6 l)) :: uint16) = (unat l mod 64) * 256"
    using a' by (simp add: push_bit_eq_mult unat_word_ariths unat_ucast_byte a)
  have c: "unat b2 < 256" by (rule unat_byte_less)
  show ?thesis
    using a' c by (simp add: unat_word_ariths b unat_ucast_byte)
qed

lemma unat_pointer_offset:
  "is_pointer l \<Longrightarrow>
     unat (push_bit 8 (ucast l XOR 0xC0) OR ucast b2 :: uint16) = pointer_target l b2"
  by (simp add: pointer_xor push_or_add unat_pointer_sum pointer_target_def)

lemma loop_limit:
  "5 < j \<Longrightarrow> ReadQName_loop uni b pos jumped j delim sb = Inl JumpLimitExceeded"
  by (subst ReadQName_loop.simps) (simp add: maxJums_def)

lemma loop_end:
  assumes "j \<le> 5" and "unat pos < 512" and "Buf b ! unat pos = 0"
  shows "ReadQName_loop uni b pos jumped j delim sb
           = Inr (sb, if jumped then b else b\<lparr>Pos := pos + 1\<rparr>)"
  using assms
  by (subst ReadQName_loop.simps)
     (simp add: maxJums_def Get_def Seek_def word_le_nat_alt)

lemma loop_label:
  assumes "j \<le> 5" and "unat pos < 512" and "Buf b ! unat pos \<noteq> 0"
    and "\<not> is_pointer (Buf b ! unat pos)"
    and "unat pos + 1 + unat (Buf b ! unat pos) < 512"
  shows "ReadQName_loop uni b pos jumped j delim sb
           = ReadQName_loop uni b (pos + 1 + ucast (Buf b ! unat pos)) jumped j ''.''
               (sb @ delim @ ToLower uni (string_of_bytes
                  (take (unat (Buf b ! unat pos)) (drop (unat pos + 1) (Buf b)))))"
proof -
  let ?l = "Buf b ! unat pos"
  have np: "\<not> 512 \<le> pos"
    using assms(2) by (simp add: word_le_nat_alt)
  have u1: "unat (pos + 1) = unat pos + 1"
    using assms(2) by (simp add: unat_word_ariths)
  have u2: "unat (pos + 1 + ucast ?l) = unat pos + 1 + unat ?l"
    by (rule label_step_unat [OF np])
  have gr: "GetRange b (pos + 1) (ucast ?l)
              = Inr (take (unat ?l) (drop (unat pos + 1) (Buf b)))"
    using assms(5) by (simp add: GetRange_def word_le_nat_alt u1 u2)
  show ?thesis
    using assms(1,3,4) np
    by (subst ReadQName_loop.simps) (simp add: maxJums_def Get_def gr is_pointer_def)
qed

lemma loop_pointer:
  assumes "j \<le> 5" and "unat pos + 1 < 512" and "is_pointer (Buf b ! unat pos)"
  shows "\<exists>target. unat target = pointer_target (Buf b ! unat pos) (Buf b ! (unat pos + 1)) \<and>
           ReadQName_loop uni b pos jumped j delim sb
             = ReadQName_loop uni (if jumped then b else b\<lparr>Pos := pos + 2\<rparr>) target
                 True (j + 1) delim sb"
proof -
  let ?l = "Buf b ! unat pos" and ?b2 = "Buf b ! (unat pos + 1)"
  let ?t = "push_bit 8 (ucast ?l XOR 0xC0) OR ucast ?b2 :: uint16"
  have np: "\<not> 512 \<le> pos"
    using assms(2) by (simp add: word_le_nat_alt)
  have u1: "unat (pos + 1) = unat pos + 1"
    using assms(2) by (simp add: unat_word_ariths)
  have np1: "\<not> 512 \<le> pos + 1"
    using assms(2) by (simp add: word_le_nat_alt u1)
  have "ReadQName_loop uni b pos jumped j delim sb
          = ReadQName_loop uni (if jumped then b else b\<lparr>Pos := pos + 2\<rparr>) ?t
              True (j + 1) delim sb"
    using assms(1,3) np np1
    by (subst ReadQName_loop.simps)
       (simp add: maxJums_def Get_def Seek_def is_pointer_def u1)
  then show ?thesis
    using unat_pointer_offset [OF assms(3), of ?b2] by blast
qed

lemma wire_name_pos: "wire_name buf p k ls \<Longrightarrow> p < 512"
  by (induction rule: wire_name.induct) simp_all


lemma loop_decodes:
  assumes "wire_name buf p k ls"
  shows "Buf b = buf \<Longrightarrow> unat pos = p \<Longrightarrow> j + k \<le> 5 \<Longrightarrow>
           \<exists>b'. ReadQName_loop uni b pos jumped j delim sb
                  = Inr (sb @ dotted_from uni delim ls, b') \<and>
                Buf b' = buf \<and> (jumped \<longrightarrow> b' = b)"
  using assms
proof (induction arbitrary: b pos jumped j delim sb)
  case (wn_end p)
  from wn_end.prems have j: "j \<le> 5" by simp
  have "ReadQName_loop uni b pos jumped j delim sb
          = Inr (sb, if jumped then b else b\<lparr>Pos := pos + 1\<rparr>)"
    using j wn_end.hyps(1,2)
    unfolding wn_end.prems(1) [symmetric] wn_end.prems(2) [symmetric]
    by (rule loop_end)
  then show ?case
    using wn_end.prems(1) by simp
next
  case (wn_label p k ls)
  let ?l = "buf ! p"
  from wn_label.hyps(4) have q: "p + 1 + unat ?l < 512"
    by (rule wire_name_pos)
  from wn_label.prems have j: "j \<le> 5" by simp
  have np: "\<not> 512 \<le> pos"
    using wn_label.hyps(1) wn_label.prems(2) by (simp add: word_le_nat_alt)
  have u: "unat (pos + 1 + ucast ?l) = p + 1 + unat ?l"
    using label_step_unat [OF np, of ?l] wn_label.prems(2) by simp
  have step: "ReadQName_loop uni b pos jumped j delim sb
           = ReadQName_loop uni b (pos + 1 + ucast ?l) jumped j ''.''
               (sb @ delim @ ToLower uni (string_of_bytes
                  (take (unat ?l) (drop (p + 1) buf))))"
    using j wn_label.hyps(1,2,3) q
    unfolding wn_label.prems(1) [symmetric] wn_label.prems(2) [symmetric]
    by (rule loop_label)
  from wn_label.IH [OF wn_label.prems(1) u wn_label.prems(3),
      of jumped "''.''" "sb @ delim @ ToLower uni (string_of_bytes
                  (take (unat ?l) (drop (p + 1) buf)))"]
  show ?case
    unfolding step by simp
next
  case (wn_pointer p k ls)
  let ?b1 = "if jumped then b else b\<lparr>Pos := pos + 2\<rparr>"
  from wn_pointer.prems have j: "j \<le> 5" by simp
  have "\<exists>target. unat target = pointer_target (buf ! p) (buf ! (p + 1)) \<and>
           ReadQName_loop uni b pos jumped j delim sb
             = ReadQName_loop uni ?b1 target True (j + 1) delim sb"
    using j wn_pointer.hyps(1,2)
    unfolding wn_pointer.prems(1) [symmetric] wn_pointer.prems(2) [symmetric]
    by (rule loop_pointer)
  then obtain target where
    t: "unat target = pointer_target (buf ! p) (buf ! (p + 1))" and
    step: "ReadQName_loop uni b pos jumped j delim sb
             = ReadQName_loop uni ?b1 target True (j + 1) delim sb"
    by blast
  have b1: "Buf ?b1 = buf"
    using wn_pointer.prems(1) by simp
  have jk: "j + 1 + k \<le> 5"
    using wn_pointer.prems(3) by simp
  from wn_pointer.IH [OF b1 t jk, of True delim sb]
  obtain b' where r: "ReadQName_loop uni ?b1 target True (j + 1) delim sb
                        = Inr (sb @ dotted_from uni delim ls, b')"
    and b': "b' = ?b1"
    by blast
  have "Buf b' = buf"
    by (simp only: b' b1)
  moreover have "jumped \<longrightarrow> b' = b"
    by (simp add: b')
  ultimately show ?case
    unfolding step using r by blast
qed

lemma loop_exceeds:
  assumes "pointer_chain buf p n"
  shows "Buf b = buf \<Longrightarrow> unat pos = p \<Longrightarrow> 5 < j + n \<Longrightarrow>
           ReadQName_loop uni b pos jumped j delim sb = Inl JumpLimitExceeded"
  using assms
proof (induction arbitrary: b pos jumped j delim sb)
  case (pc_zero p)
  then show ?case
    by (simp add: loop_limit)
next
  case (pc_label p n)
  show ?case
  proof (cases "j \<le> 5")
    case True
    let ?l = "buf ! p"
    have np: "\<not> 512 \<le> pos"
      using pc_label.hyps(1) pc_label.prems(2) by (simp add: word_le_nat_alt)
    have u: "unat (pos + 1 + ucast ?l) = p + 1 + unat ?l"
      using label_step_unat [OF np, of ?l] pc_label.prems(2) by simp
    have step: "ReadQName_loop uni b pos jumped j delim sb
           = ReadQName_loop uni b (pos + 1 + ucast ?l) jumped j ''.''
               (sb @ delim @ ToLower uni (string_of_bytes
                  (take (unat ?l) (drop (p + 1) buf))))"
      using True pc_label.hyps(1,2,3,4)
      unfolding pc_label.prems(1) [symmetric] pc_label.prems(2) [symmetric]
      by (rule loop_label)
    show ?thesis
      unfolding step by (rule pc_label.IH [OF pc_label.prems(1) u pc_label.prems(3)])
  next
    case False
    then show ?thesis by (simp add: loop_limit)
  qed
next
  case (pc_pointer p n)
  show ?case
  proof (cases "j \<le> 5")
    case True
    let ?b1 = "if jumped then b else b\<lparr>Pos := pos + 2\<rparr>"
    have "\<exists>target. unat target = pointer_target (buf ! p) (buf ! (p + 1)) \<and>
             ReadQName_loop uni b pos jumped j delim sb
               = ReadQName_loop uni ?b1 target True (j + 1) delim sb"
      using True pc_pointer.hyps(1,2)
      unfolding pc_pointer.prems(1) [symmetric] pc_pointer.prems(2) [symmetric]
      by (rule loop_pointer)
    then obtain target where
      t: "unat target = pointer_target (buf ! p) (buf ! (p + 1))" and
      step: "ReadQName_loop uni b pos jumped j delim sb
               = ReadQName_loop uni ?b1 target True (j + 1) delim sb"
      by blast
    have b1: "Buf ?b1 = buf"
      using pc_pointer.prems(1) by simp
    have jn: "5 < j + 1 + n"
      using pc_pointer.prems(3) by simp
    show ?thesis
      unfolding step by (rule pc_pointer.IH [OF b1 t jn])
  next
    case False
    then show ?thesis by (simp add: loop_limit)
  qed
qed

lemma wire_name_chain: "wire_name buf p k ls \<Longrightarrow> pointer_chain buf p k"
proof (induction rule: wire_name.induct)
  case (wn_end p)
  show ?case by (rule pc_zero)
next
  case (wn_label p k ls)
  from wn_label.hyps(4) have q: "p + 1 + unat (buf ! p) < 512"
    by (rule wire_name_pos)
  show ?case
    using wn_label.hyps(1,2,3) q wn_label.IH by (rule pc_label)
next
  case (wn_pointer p k ls)
  show ?case
    using wn_pointer.hyps(1,2) wn_pointer.IH by (rule pc_pointer)
qed

lemma cycle_chain:
  assumes "pointers_at_each_other buf p q"
  shows "pointer_chain buf p n \<and> pointer_chain buf q n"
proof (induction n)
  case 0
  show ?case by (simp add: pc_zero)
next
  case (Suc n)
  from assms have p: "p + 1 < 512" "is_pointer (buf ! p)"
      "pointer_target (buf ! p) (buf ! (p + 1)) = q"
    and q: "q + 1 < 512" "is_pointer (buf ! q)"
      "pointer_target (buf ! q) (buf ! (q + 1)) = p"
    by (simp_all add: pointers_at_each_other_def)
  from Suc have "pointer_chain buf q n" and "pointer_chain buf p n"
    by simp_all
  then show ?case
    using pc_pointer [of p buf n] pc_pointer [of q buf n] p q by simp
qed

lemma wire_name_labelI:
  "p < 512 \<Longrightarrow> buf ! p = l \<Longrightarrow> l \<noteq> 0 \<Longrightarrow> \<not> is_pointer l \<Longrightarrow>
   take (unat l) (drop (p + 1) buf) = lab \<Longrightarrow> p + 1 + unat l = q \<Longrightarrow>
   wire_name buf q k ls \<Longrightarrow> wire_name buf p k (lab # ls)"
  using wn_label [of p buf k ls] by auto

lemma wire_name_pointerI:
  "p + 1 < 512 \<Longrightarrow> is_pointer (buf ! p) \<Longrightarrow>
   pointer_target (buf ! p) (buf ! (p + 1)) = q \<Longrightarrow>
   wire_name buf q k ls \<Longrightarrow> wire_name buf p (Suc k) ls"
  using wn_pointer [of p buf k ls] by auto

lemma nth_of_window:
  assumes "take n (drop X buf) = L" and "i < length L"
  shows "buf ! (X + i) = L ! i"
proof -
  from assms have i: "i < n" and d: "i < length (drop X buf)"
    by auto
  then have "X \<le> length buf" by simp
  then have "buf ! (X + i) = drop X buf ! i"
    by simp
  also have "\<dots> = take n (drop X buf) ! i"
    using i by simp
  finally show ?thesis
    by (simp add: assms(1))
qed

lemma take_of_window:
  assumes "take n (drop X buf) = L" and "a + m \<le> n"
  shows "take m (drop (X + a) buf) = take m (drop a L)"
proof -
  have "take m (drop a L) = take m (drop a (take n (drop X buf)))"
    by (simp add: assms(1))
  also have "\<dots> = take m (take (n - a) (drop (X + a) buf))"
    by (simp add: drop_take add.commute)
  also have "\<dots> = take m (drop (X + a) buf)"
    using assms(2) by (simp add: min_def)
  finally show ?thesis by simp
qed

lemma www_google_com_bytes:
  "www_google_com = [3, 119, 119, 119, 6, 103, 111, 111, 103, 108, 101, 3, 99, 111, 109, 0]"
  by code_simp

lemma lower_www: "ToLower uni (string_of_bytes [119, 119, 119]) = ''www''"
  by code_simp

lemma lower_google: "ToLower uni (string_of_bytes [103, 111, 111, 103, 108, 101]) = ''google''"
  by code_simp

lemma lower_com: "ToLower uni (string_of_bytes [99, 111, 109]) = ''com''"
  by code_simp

lemma not_pointer_3: "\<not> is_pointer 3" by (simp add: is_pointer_def)
lemma not_pointer_6: "\<not> is_pointer 6" by (simp add: is_pointer_def)

lemma wire_name_www:
  assumes "length buf = 512" and "take 16 (drop X buf) = www_google_com"
  shows "wire_name buf X 0 [[119, 119, 119], [103, 111, 111, 103, 108, 101], [99, 111, 109]]"
proof -
  note L = assms(2) [unfolded www_google_com_bytes]
  have "length (take 16 (drop X buf)) = 16"
    by (simp add: L)
  then have X: "X + 16 \<le> 512"
    using assms(1) by simp
  have n0: "buf ! X = 3"
    using nth_of_window [OF L, of 0] by simp
  have n4: "buf ! (X + 4) = 6"
    using nth_of_window [OF L, of 4] by simp
  have n11: "buf ! (X + 11) = 3"
    using nth_of_window [OF L, of 11] by simp
  have n15: "buf ! (X + 15) = 0"
    using nth_of_window [OF L, of 15] by simp
  have l1: "take 3 (drop (X + 1) buf) = [119, 119, 119]"
    using take_of_window [OF L, of 1 3] by simp
  have l2: "take 6 (drop (X + 5) buf) = [103, 111, 111, 103, 108, 101]"
    using take_of_window [OF L, of 5 6] by simp
  have l3: "take 3 (drop (X + 12) buf) = [99, 111, 109]"
    using take_of_window [OF L, of 12 3] by simp
  have u3: "unat (3::byte) = 3" and u6: "unat (6::byte) = 6"
    by simp_all
  have w15: "wire_name buf (X + 15) 0 []"
    using X n15 by (intro wn_end) simp_all
  have w11: "wire_name buf (X + 11) 0 [[99, 111, 109]]"
  proof (rule wire_name_labelI [where l = 3 and q = "X + 15"])
    show "X + 11 < 512" using X by simp
    show "buf ! (X + 11) = 3" by (rule n11)
    show "(3::byte) \<noteq> 0" by simp
    show "\<not> is_pointer 3" by (rule not_pointer_3)
    have e: "X + 11 + 1 = X + 12" by simp
    show "take (unat (3::byte)) (drop (X + 11 + 1) buf) = [99, 111, 109]"
      unfolding e u3 by (rule l3)
    show "X + 11 + 1 + unat (3::byte) = X + 15" by simp
    show "wire_name buf (X + 15) 0 []" by (rule w15)
  qed
  have w4: "wire_name buf (X + 4) 0 [[103, 111, 111, 103, 108, 101], [99, 111, 109]]"
  proof (rule wire_name_labelI [where l = 6 and q = "X + 11"])
    show "X + 4 < 512" using X by simp
    show "buf ! (X + 4) = 6" by (rule n4)
    show "(6::byte) \<noteq> 0" by simp
    show "\<not> is_pointer 6" by (rule not_pointer_6)
    have e: "X + 4 + 1 = X + 5" by simp
    show "take (unat (6::byte)) (drop (X + 4 + 1) buf) = [103, 111, 111, 103, 108, 101]"
      unfolding e u6 by (rule l2)
    show "X + 4 + 1 + unat (6::byte) = X + 11" by simp
    show "wire_name buf (X + 11) 0 [[99, 111, 109]]" by (rule w11)
  qed
  show ?thesis
  proof (rule wire_name_labelI [where l = 3 and q = "X + 4"])
    show "X < 512" using X by simp
    show "buf ! X = 3" by (rule n0)
    show "(3::byte) \<noteq> 0" by simp
    show "\<not> is_pointer 3" by (rule not_pointer_3)
    show "take (unat (3::byte)) (drop (X + 1) buf) = [119, 119, 119]"
      unfolding u3 by (rule l1)
    show "X + 1 + unat (3::byte) = X + 4" by simp
    show "wire_name buf (X + 4) 0 [[103, 111, 111, 103, 108, 101], [99, 111, 109]]"
      by (rule w4)
  qed
qed

lemma wire_name_pointer_example:
  "wire_name (Buf pointer_example) (unat (Pos pointer_example)) 1
     [[119, 119, 119], [103, 111, 111, 103, 108, 101], [99, 111, 109]]"
proof -
  have len: "length (Buf pointer_example) = 512" by code_simp
  have win: "take 16 (drop 0 (Buf pointer_example)) = www_google_com" by code_simp
  have p: "unat (Pos pointer_example) = 16" by code_simp
  have ptr: "is_pointer (Buf pointer_example ! 16)" by code_simp
  have tgt: "pointer_target (Buf pointer_example ! 16) (Buf pointer_example ! (16 + 1)) = 0"
    by code_simp
  have "wire_name (Buf pointer_example) 16 (Suc 0)
          [[119, 119, 119], [103, 111, 111, 103, 108, 101], [99, 111, 109]]"
    using ptr tgt wire_name_www [OF len win] by (intro wire_name_pointerI) simp_all
  then show ?thesis by (simp add: p)
qed

lemma wire_name_six_jumps:
  "wire_name (Buf six_jumps_example) (unat (Pos six_jumps_example)) 6 []"
proof -
  let ?buf = "Buf six_jumps_example"
  have p: "unat (Pos six_jumps_example) = 0" by code_simp
  have z: "?buf ! 12 = 0" by code_simp
  have i0: "is_pointer (?buf ! 0)" "pointer_target (?buf ! 0) (?buf ! (0 + 1)) = 2"
    by code_simp+
  have i2: "is_pointer (?buf ! 2)" "pointer_target (?buf ! 2) (?buf ! (2 + 1)) = 4"
    by code_simp+
  have i4: "is_pointer (?buf ! 4)" "pointer_target (?buf ! 4) (?buf ! (4 + 1)) = 6"
    by code_simp+
  have i6: "is_pointer (?buf ! 6)" "pointer_target (?buf ! 6) (?buf ! (6 + 1)) = 8"
    by code_simp+
  have i8: "is_pointer (?buf ! 8)" "pointer_target (?buf ! 8) (?buf ! (8 + 1)) = 10"
    by code_simp+
  have i10: "is_pointer (?buf ! 10)" "pointer_target (?buf ! 10) (?buf ! (10 + 1)) = 12"
    by code_simp+
  have w12: "wire_name ?buf 12 0 []"
    using z by (intro wn_end) simp_all
  have w10: "wire_name ?buf 10 1 []"
    using wire_name_pointerI [OF _ i10 w12] by simp
  have w8: "wire_name ?buf 8 2 []"
    using wire_name_pointerI [OF _ i8 w10] by (simp add: numeral_2_eq_2)
  have w6: "wire_name ?buf 6 3 []"
    using wire_name_pointerI [OF _ i6 w8] by (simp add: numeral_3_eq_3 numeral_2_eq_2)
  have w4: "wire_name ?buf 4 (Suc 3) []"
    using wire_name_pointerI [OF _ i4 w6] by simp
  have w2: "wire_name ?buf 2 (Suc (Suc 3)) []"
    using wire_name_pointerI [OF _ i2 w4] by simp
  have w0: "wire_name ?buf 0 (Suc (Suc (Suc 3))) []"
    using wire_name_pointerI [OF _ i0 w2] by simp
  have "Suc (Suc (Suc 3)) = (6::nat)" by simp
  with w0 show ?thesis by (simp only: p)
qed

text \<open>
  C4. If the two bytes at the cursor are a pointer whose 14-bit offset is the
  start of the sixteen bytes \<open>[3]www[6]google[3]com[0]\<close>, then \<^verbatim>\<open>ReadQName\<close>
  returns \<open>www.google.com\<close> and leaves the cursor 2 bytes past the pointer, the
  bytes of the buffer untouched.
\<close>

theorem ReadQName_follows_pointer:
  assumes "wf_buffer b"
    and "unat (Pos b) + 1 < 512"
    and "is_pointer (Buf b ! unat (Pos b))"
    and "take 16 (drop (pointer_target (Buf b ! unat (Pos b)) (Buf b ! (unat (Pos b) + 1)))
                   (Buf b)) = www_google_com"
  shows "ReadQName uni b = Inr (''www.google.com'', b\<lparr>Pos := Pos b + 2\<rparr>)"
proof -
  let ?X = "pointer_target (Buf b ! unat (Pos b)) (Buf b ! (unat (Pos b) + 1))"
  let ?b1 = "b\<lparr>Pos := Pos b + 2\<rparr>"
  have len: "length (Buf b) = 512"
    using assms(1) by (simp add: wf_buffer_def)
  have w: "wire_name (Buf b) ?X 0 [[119, 119, 119], [103, 111, 111, 103, 108, 101], [99, 111, 109]]"
    by (rule wire_name_www [OF len assms(4)])
  have j0: "(0::nat) \<le> 5" by simp
  from loop_pointer [OF j0 assms(2) assms(3), of uni False "[]" "[]"]
  obtain target where t: "unat target = ?X"
    and step: "ReadQName_loop uni b (Pos b) False 0 [] []
                 = ReadQName_loop uni ?b1 target True 1 [] []"
    by auto
  have b1: "Buf ?b1 = Buf b" by simp
  have k: "1 + (0::nat) \<le> 5" by simp
  from loop_decodes [OF w b1 t k, of uni True "[]" "[]"]
  have "ReadQName_loop uni ?b1 target True 1 [] []
          = Inr (dotted_from uni [] [[119, 119, 119], [103, 111, 111, 103, 108, 101],
                   [99, 111, 109]], ?b1)"
    by auto
  then show ?thesis
    unfolding ReadQName_def step
    by (simp add: lower_www lower_google lower_com)
qed

theorem ReadQName_follows_pointer_witness:
  "wf_buffer pointer_example \<and> unat (Pos pointer_example) + 1 < 512 \<and>
   is_pointer (Buf pointer_example ! unat (Pos pointer_example)) \<and>
   ReadQName id pointer_example = Inr (''www.google.com'', pointer_example\<lparr>Pos := 18\<rparr>)"
proof -
  have h1: "wf_buffer pointer_example" by code_simp
  have h2: "unat (Pos pointer_example) + 1 < 512" by code_simp
  have h3: "is_pointer (Buf pointer_example ! unat (Pos pointer_example))" by code_simp
  have h4: "take 16 (drop (pointer_target (Buf pointer_example ! unat (Pos pointer_example))
                        (Buf pointer_example ! (unat (Pos pointer_example) + 1)))
                   (Buf pointer_example)) = www_google_com" by code_simp
  have p: "Pos pointer_example + 2 = 18" by code_simp
  from ReadQName_follows_pointer [OF h1 h2 h3 h4, of id] h1 h2 h3 show ?thesis
    by (simp add: p)
qed

text \<open>
  C5. \<^verbatim>\<open>ReadQName\<close> is a total function: its loop was shown to terminate on
  every buffer, since a jump uses up one of six and every other step moves the
  position up, below 512. A name that lies in the buffer and takes at most 5
  jumps is decoded; a name that takes more than 5, and any reading that meets a
  sixth pointer, in particular two pointers at each other, ends with the
  too-many-jumps error.
\<close>

theorem ReadQName_jump_limit:
  "(wire_name (Buf b) (unat (Pos b)) k ls \<and> k \<le> 5 \<longrightarrow>
      (\<exists>b'. ReadQName uni b = Inr (dotted uni ls, b'))) \<and>
   (wire_name (Buf b) (unat (Pos b)) k ls \<and> 5 < k \<longrightarrow>
      ReadQName uni b = Inl JumpLimitExceeded) \<and>
   (pointer_chain (Buf b) (unat (Pos b)) 6 \<longrightarrow>
      ReadQName uni b = Inl JumpLimitExceeded) \<and>
   (pointers_at_each_other (Buf b) (unat (Pos b)) q \<longrightarrow>
      ReadQName uni b = Inl JumpLimitExceeded)"
proof (intro conjI impI)
  assume "wire_name (Buf b) (unat (Pos b)) k ls \<and> k \<le> 5"
  then have w: "wire_name (Buf b) (unat (Pos b)) k ls" and k: "0 + k \<le> 5"
    by simp_all
  from loop_decodes [OF w refl refl k, of uni False "[]" "[]"]
  show "\<exists>b'. ReadQName uni b = Inr (dotted uni ls, b')"
    by (auto simp add: ReadQName_def dotted_def)
next
  assume "wire_name (Buf b) (unat (Pos b)) k ls \<and> 5 < k"
  then have c: "pointer_chain (Buf b) (unat (Pos b)) k" and k: "5 < 0 + k"
    using wire_name_chain by auto
  show "ReadQName uni b = Inl JumpLimitExceeded"
    unfolding ReadQName_def by (rule loop_exceeds [OF c refl refl k])
next
  assume c: "pointer_chain (Buf b) (unat (Pos b)) 6"
  have k: "5 < 0 + (6::nat)" by simp
  show "ReadQName uni b = Inl JumpLimitExceeded"
    unfolding ReadQName_def by (rule loop_exceeds [OF c refl refl k])
next
  assume "pointers_at_each_other (Buf b) (unat (Pos b)) q"
  then have c: "pointer_chain (Buf b) (unat (Pos b)) 6"
    using cycle_chain by blast
  have k: "5 < 0 + (6::nat)" by simp
  show "ReadQName uni b = Inl JumpLimitExceeded"
    unfolding ReadQName_def by (rule loop_exceeds [OF c refl refl k])
qed

theorem ReadQName_jump_limit_witness:
  "(wire_name (Buf pointer_example) (unat (Pos pointer_example)) 1
      [[119, 119, 119], [103, 111, 111, 103, 108, 101], [99, 111, 109]] \<and> (1::nat) \<le> 5) \<and>
   (\<exists>b'. ReadQName id pointer_example = Inr (''www.google.com'', b')) \<and>
   (wire_name (Buf six_jumps_example) (unat (Pos six_jumps_example)) 6 [] \<and> (5::nat) < 6) \<and>
   ReadQName id six_jumps_example = Inl JumpLimitExceeded \<and>
   pointer_chain (Buf cycle_example) (unat (Pos cycle_example)) 6 \<and>
   pointers_at_each_other (Buf cycle_example) (unat (Pos cycle_example)) 2 \<and>
   ReadQName id cycle_example = Inl JumpLimitExceeded"
proof -
  have c: "pointers_at_each_other (Buf cycle_example) (unat (Pos cycle_example)) 2"
    by code_simp
  have d: "dotted id [[119, 119, 119], [103, 111, 111, 103, 108, 101], [99, 111, 109]]
             = ''www.google.com''"
    by (simp add: dotted_def lower_www lower_google lower_com)
  note t1 = ReadQName_jump_limit [of pointer_example 1
      "[[119, 119, 119], [103, 111, 111, 103, 108, 101], [99, 111, 109]]" id 0]
  note t2 = ReadQName_jump_limit [of six_jumps_example 6 "[]" id 0]
  note t3 = ReadQName_jump_limit [of cycle_example 0 "[]" id 2]
  from t1 t2 t3 wire_name_pointer_example wire_name_six_jumps c cycle_chain [OF c, of 6]
  show ?thesis
    by (simp add: d)
qed

section \<open>Whole messages\<close>

text \<open>
  C1. Decoding what was encoded does not give the message back. The header is
  written without its second flag byte, so the empty response with RD and RA
  set is decoded with RA clear; and every byte after the flags is read one
  place early: in the query for \<open>google.com\<close> the decoder finds 256 questions
  and 6 additional records where there are 1 and 0, and runs off the end of the
  buffer reading them.
\<close>

theorem decode_encode_differs:
  "decode_encode uni response_example
     = Inr (response_example
              \<lparr>Header := (Header response_example)\<lparr>RecursionAvailable := False\<rparr>\<rparr>) \<and>
   decode_encode uni response_example \<noteq> Inr response_example \<and>
   map_sum id (\<lambda>(h, b). (Questions h, Answers h, AuthoritativeEntries h, ResourceEntries h))
     (bindE (DnsPacket_Write query_example NewBytePacketBuffer) (\<lambda>(m', b).
      bindE (Seek b 0) DnsHeader_Read))
     = Inr (256, 0, 0, 6) \<and>
   decode_encode uni query_example = Inl EndOfBuffer"
  by code_simp

end
